theory Spec2Isabelle
  imports Main "HOL-Library.Word" "HOL-Library.Log_Nat"
begin

section \<open>Strings and code points\<close>

text \<open>
  A Go \<^verbatim>\<open>string\<close> is a sequence of bytes, here a \<^typ>\<open>string\<close> (the characters of HOL
  are bytes). Both \<^verbatim>\<open>for _, ch := range text\<close> and the \<^verbatim>\<open>regexp\<close> package read a string
  one code point at a time with the UTF-8 decoder of package \<^verbatim>\<open>unicode/utf8\<close>: a byte below
  \<^verbatim>\<open>0x80\<close> is its own code point, a well-formed sequence of two to four bytes is one
  code point, and any other byte is read alone as \<^verbatim>\<open>U+FFFD\<close>.
\<close>

type_synonym rune = int

definition RuneError :: rune where
  "RuneError = 0xFFFD"

definition byte :: "char \<Rightarrow> int" where
  "byte c = of_char c"

text \<open>
  \<^verbatim>\<open>utf8.DecodeRuneInString\<close>: the code point at the head of the string and the number of
  bytes it takes. The three tables of the decoder (\<^verbatim>\<open>first\<close>, \<^verbatim>\<open>acceptRanges\<close>) are the
  three conditionals on the first byte: its size, and the lowest and highest second byte
  accepted after it.
\<close>

fun DecodeRuneInString :: "string \<Rightarrow> rune \<times> nat" where
  "DecodeRuneInString [] = (RuneError, 0)"
| "DecodeRuneInString (c0 # rest) =
     (let p0 = byte c0 in
      if p0 < 0x80 then (p0, 1)
      else if p0 < 0xC2 \<or> 0xF4 < p0 then (RuneError, 1)
      else
        let sz = (if p0 < 0xE0 then 2 else if p0 < 0xF0 then 3 else 4 :: nat);
            lo = (if p0 = 0xE0 then 0xA0 else if p0 = 0xF0 then 0x90 else 0x80);
            hi = (if p0 = 0xED then 0x9F else if p0 = 0xF4 then 0x8F else 0xBF)
        in
        if length (c0 # rest) < sz then (RuneError, 1)
        else
          let b1 = byte (rest ! 0) in
          if b1 < lo \<or> hi < b1 then (RuneError, 1)
          else if sz = 2 then (p0 mod 32 * 64 + b1 mod 64, 2)
          else
            let b2 = byte (rest ! 1) in
            if b2 < 0x80 \<or> 0xBF < b2 then (RuneError, 1)
            else if sz = 3 then (p0 mod 16 * 4096 + b1 mod 64 * 64 + b2 mod 64, 3)
            else
              let b3 = byte (rest ! 2) in
              if b3 < 0x80 \<or> 0xBF < b3 then (RuneError, 1)
              else (p0 mod 8 * 262144 + b1 mod 64 * 4096 + b2 mod 64 * 64 + b3 mod 64, 4))"

lemma byte_range: "0 \<le> byte c \<and> byte c < 256"
proof -
  have "byte c = int (of_char c)"
    by (simp add: byte_def of_nat_of_char)
  moreover have "(of_char c :: nat) < 256"
    by simp
  ultimately show ?thesis
    by simp
qed

lemma DecodeRuneInString_size_pos:
  "s \<noteq> [] \<Longrightarrow> 0 < snd (DecodeRuneInString s)"
  by (cases s) (simp_all add: Let_def)

lemma DecodeRuneInString_size_le:
  "snd (DecodeRuneInString s) \<le> length s"
  by (cases s) (auto simp add: Let_def Suc_le_eq not_less split: if_splits)

text \<open>The code points of a string in order, as \<^verbatim>\<open>for _, ch := range text\<close> yields them.\<close>

function runes :: "string \<Rightarrow> rune list" where
  "runes s =
     (if s = [] then []
      else fst (DecodeRuneInString s) # runes (drop (snd (DecodeRuneInString s)) s))"
  by pat_completeness auto
termination
  by (relation "measure length") (simp_all add: DecodeRuneInString_size_pos)

declare runes.simps [simp del]

section \<open>Filename sanitization\<close>

text \<open>\<^verbatim>\<open>strings.ReplaceAll(s, " ", "_")\<close>: the old string is one byte, so every occurrence
  is one position of the string.\<close>

definition ReplaceAll_space_underscore :: "string \<Rightarrow> string" where
  "ReplaceAll_space_underscore s = map (\<lambda>c. if c = CHR '' '' then CHR ''_'' else c) s"

text \<open>The character class \<^verbatim>\<open>[^a-zA-Z0-9_]\<close> of the regular expression, on code points.\<close>

definition in_word_class :: "rune \<Rightarrow> bool" where
  "in_word_class r \<longleftrightarrow>
     (byte CHR ''a'' \<le> r \<and> r \<le> byte CHR ''z'') \<or>
     (byte CHR ''A'' \<le> r \<and> r \<le> byte CHR ''Z'') \<or>
     (byte CHR ''0'' \<le> r \<and> r \<le> byte CHR ''9'') \<or>
     r = byte CHR ''_''"

definition reg_class :: "rune \<Rightarrow> bool" where
  "reg_class r \<longleftrightarrow> \<not> in_word_class r"

text \<open>
  The number of bytes of the longest match of \<^verbatim>\<open>[^a-zA-Z0-9_]+\<close> that starts at the head
  of the string: the repetition is greedy, so the match runs up to the first code point
  outside the class; 0 when the head is not in the class (no match starts here).
\<close>

function match_len :: "string \<Rightarrow> nat" where
  "match_len s =
     (if s = [] then 0
      else if reg_class (fst (DecodeRuneInString s))
      then snd (DecodeRuneInString s) + match_len (drop (snd (DecodeRuneInString s)) s)
      else 0)"
  by pat_completeness auto
termination
  by (relation "measure length") (simp_all add: DecodeRuneInString_size_pos)

declare match_len.simps [simp del]

lemma match_len_le: "match_len s \<le> length s"
proof (induction s rule: match_len.induct)
  case (1 s)
  show ?case
  proof (cases "s \<noteq> [] \<and> reg_class (fst (DecodeRuneInString s))")
    case True
    let ?n = "snd (DecodeRuneInString s)"
    have "match_len (drop ?n s) \<le> length s - ?n"
      using 1 True by simp
    moreover have "?n \<le> length s"
      by (rule DecodeRuneInString_size_le)
    ultimately show ?thesis
      using True by (subst match_len.simps) simp
  next
    case False
    then show ?thesis
      by (subst match_len.simps) auto
  qed
qed

lemma match_len_pos:
  "s \<noteq> [] \<Longrightarrow> reg_class (fst (DecodeRuneInString s)) \<Longrightarrow> 0 < match_len s"
  by (subst match_len.simps) (simp add: DecodeRuneInString_size_pos)

text \<open>
  \<^verbatim>\<open>reg.ReplaceAllString(src, repl)\<close> for this expression: scanning from the left, every
  match is replaced by \<^verbatim>\<open>repl\<close> and the text between matches is copied; the scan resumes
  after a match, so matches do not overlap, and a code point that starts no match is
  copied with all its bytes.
\<close>

function ReplaceAllString :: "string \<Rightarrow> string \<Rightarrow> string" where
  "ReplaceAllString src repl =
     (if src = [] then []
      else if 0 < match_len src
      then repl @ ReplaceAllString (drop (match_len src) src) repl
      else take (snd (DecodeRuneInString src)) src
           @ ReplaceAllString (drop (snd (DecodeRuneInString src)) src) repl)"
  by pat_completeness auto
termination
  by (relation "measure (\<lambda>(src, repl). length src)")
     (simp_all add: DecodeRuneInString_size_pos)

declare ReplaceAllString.simps [simp del]

text \<open>\<^verbatim>\<open>sanitizeFilename\<close> of \<^verbatim>\<open>main.go\<close>.\<close>

definition sanitizeFilename :: "string \<Rightarrow> string" where
  "sanitizeFilename filename = ReplaceAllString (ReplaceAll_space_underscore filename) []"

subsection \<open>What the decoder does to a byte outside ASCII\<close>

lemma lead2: "0xC2 \<le> p \<Longrightarrow> p < 0xE0 \<Longrightarrow> 2 \<le> (p::int) mod 32"
  by presburger

lemma lead3: "0xE1 \<le> p \<Longrightarrow> p < 0xF0 \<Longrightarrow> 1 \<le> (p::int) mod 16"
  by presburger

lemma lead4: "0xF1 \<le> p \<Longrightarrow> p \<le> 0xF4 \<Longrightarrow> 1 \<le> (p::int) mod 8"
  by presburger

lemma cont_E0: "0xA0 \<le> b \<Longrightarrow> b \<le> 0xBF \<Longrightarrow> 32 \<le> (b::int) mod 64"
  by presburger

lemma cont_F0: "0x90 \<le> b \<Longrightarrow> b \<le> 0xBF \<Longrightarrow> 16 \<le> (b::int) mod 64"
  by presburger

lemma r2: "2 \<le> a \<Longrightarrow> 0 \<le> b \<Longrightarrow> 128 \<le> a * 64 + (b::int)"
  by linarith

lemma r3: "1 \<le> a \<Longrightarrow> 0 \<le> b \<Longrightarrow> 0 \<le> c \<Longrightarrow> 128 \<le> a * 4096 + b * 64 + (c::int)"
  by linarith

lemma r3': "32 \<le> b \<Longrightarrow> 0 \<le> c \<Longrightarrow> 128 \<le> b * 64 + (c::int)"
  by linarith

lemma r4:
  "1 \<le> a \<Longrightarrow> 0 \<le> b \<Longrightarrow> 0 \<le> c \<Longrightarrow> 0 \<le> d \<Longrightarrow> 128 \<le> a * 262144 + b * 4096 + c * 64 + (d::int)"
  by linarith

lemma r4': "16 \<le> b \<Longrightarrow> 0 \<le> c \<Longrightarrow> 0 \<le> d \<Longrightarrow> 128 \<le> b * 4096 + c * 64 + (d::int)"
  by linarith

text \<open>A string that starts with a byte of \<^verbatim>\<open>0x80\<close> or more starts with a code point of
  \<^verbatim>\<open>0x80\<close> or more (the replacement character included).\<close>

lemma Decode_high_rune:
  assumes "\<not> byte c0 < 0x80"
  shows "0x80 \<le> fst (DecodeRuneInString (c0 # rest))"
proof -
  let ?p = "byte c0" and ?b1 = "byte (rest ! 0)"
  consider (bad) "?p < 0xC2 \<or> 0xF4 < ?p"
    | (two) "0xC2 \<le> ?p" "?p < 0xE0"
    | (e0) "?p = 0xE0"
    | (three) "0xE1 \<le> ?p" "?p < 0xF0"
    | (f0) "?p = 0xF0"
    | (four) "0xF1 \<le> ?p" "?p \<le> 0xF4"
    by linarith
  then show ?thesis
  proof cases
    case bad
    then show ?thesis
      using assms by (auto simp add: RuneError_def)
  next
    case two
    then show ?thesis
      using assms lead2 [of ?p] by (auto simp add: Let_def RuneError_def intro!: r2)
  next
    case e0
    then show ?thesis
      using assms cont_E0 [of ?b1] by (auto simp add: Let_def RuneError_def intro!: r3')
  next
    case three
    then show ?thesis
      using assms lead3 [of ?p] by (auto simp add: Let_def RuneError_def intro!: r3)
  next
    case f0
    then show ?thesis
      using assms cont_F0 [of ?b1] by (auto simp add: Let_def RuneError_def intro!: r4')
  next
    case four
    then show ?thesis
      using assms lead4 [of ?p] by (auto simp add: Let_def RuneError_def intro!: r4)
  qed
qed

text \<open>Every byte of such a code point is \<^verbatim>\<open>0x80\<close> or more.\<close>

lemma Decode_size_le_4: "snd (DecodeRuneInString s) \<le> 4"
  by (cases s) (auto simp add: Let_def)

lemma Decode_second_byte:
  "1 < snd (DecodeRuneInString (c0 # rest)) \<Longrightarrow> 0x80 \<le> byte (rest ! 0)"
  by (auto simp add: Let_def split: if_splits)

lemma Decode_third_byte:
  "2 < snd (DecodeRuneInString (c0 # rest)) \<Longrightarrow> 0x80 \<le> byte (rest ! 1)"
  by (auto simp add: Let_def split: if_splits)

lemma Decode_fourth_byte:
  "3 < snd (DecodeRuneInString (c0 # rest)) \<Longrightarrow> 0x80 \<le> byte (rest ! 2)"
  by (auto simp add: Let_def split: if_splits)

lemma Decode_high_bytes:
  assumes "\<not> byte c0 < 0x80" and "i < snd (DecodeRuneInString (c0 # rest))"
  shows "0x80 \<le> byte ((c0 # rest) ! i)"
proof -
  have "i < 4"
    using assms(2) Decode_size_le_4 [of "c0 # rest"] by linarith
  then consider "i = 0" | "i = 1" | "i = 2" | "i = 3"
    by linarith
  then show ?thesis
  proof cases
    case 1
    then show ?thesis using assms(1) by simp
  next
    case 2
    then show ?thesis
      using assms(2) Decode_second_byte [of c0 rest] by (simp del: DecodeRuneInString.simps)
  next
    case 3
    then show ?thesis
      using assms(2) Decode_third_byte [of c0 rest] by (simp del: DecodeRuneInString.simps)
  next
    case 4
    then show ?thesis
      using assms(2) Decode_fourth_byte [of c0 rest] by (simp del: DecodeRuneInString.simps)
  qed
qed

subsection \<open>Sanitization, byte by byte\<close>

text \<open>The bytes that are an ASCII letter, a digit or the underscore.\<close>

definition is_word_byte :: "char \<Rightarrow> bool" where
  "is_word_byte c \<longleftrightarrow> in_word_class (byte c)"

lemma is_word_byte_ascii: "is_word_byte c \<Longrightarrow> byte c < 0x80"
  by (auto simp add: is_word_byte_def in_word_class_def byte_def)

lemma word_class_ascii: "in_word_class r \<Longrightarrow> r < 0x80"
  by (auto simp add: in_word_class_def byte_def)

lemma Decode_not_class:
  assumes "s \<noteq> []" and "\<not> reg_class (fst (DecodeRuneInString s))"
  shows "snd (DecodeRuneInString s) = 1 \<and> is_word_byte (hd s)"
proof -
  from assms(1) obtain c0 rest where s: "s = c0 # rest"
    by (cases s) auto
  have "byte c0 < 0x80"
  proof (rule ccontr)
    assume "\<not> byte c0 < 0x80"
    then have "0x80 \<le> fst (DecodeRuneInString s)"
      unfolding s by (rule Decode_high_rune)
    with assms(2) show False
      using word_class_ascii [of "fst (DecodeRuneInString s)"] by (simp add: reg_class_def)
  qed
  with assms(2) show ?thesis
    by (simp add: s reg_class_def is_word_byte_def)
qed

lemma Decode_class:
  assumes "s \<noteq> []" and "reg_class (fst (DecodeRuneInString s))"
  shows "filter is_word_byte (take (snd (DecodeRuneInString s)) s) = []"
proof -
  from assms(1) obtain c0 rest where s: "s = c0 # rest"
    by (cases s) auto
  show ?thesis
  proof (cases "byte c0 < 0x80")
    case True
    with assms(2) show ?thesis
      by (simp add: s reg_class_def is_word_byte_def)
  next
    case False
    have "\<not> is_word_byte c" if "c \<in> set (take (snd (DecodeRuneInString s)) s)" for c
    proof -
      from that obtain i where "i < snd (DecodeRuneInString s)" and "c = s ! i"
        by (auto simp add: in_set_conv_nth)
      with False have "0x80 \<le> byte c"
        unfolding s using Decode_high_bytes [of c0 i rest] by simp
      then show ?thesis
        using is_word_byte_ascii [of c] by auto
    qed
    then show ?thesis
      by (simp add: filter_empty_conv)
  qed
qed

lemma match_len_no_word_byte: "filter is_word_byte (take (match_len s) s) = []"
proof (induction s rule: match_len.induct)
  case (1 s)
  show ?case
  proof (cases "s \<noteq> [] \<and> reg_class (fst (DecodeRuneInString s))")
    case True
    let ?n = "snd (DecodeRuneInString s)"
    have "filter is_word_byte (take (match_len (drop ?n s)) (drop ?n s)) = []"
      using 1 True by simp
    moreover have "filter is_word_byte (take ?n s) = []"
      using True by (simp add: Decode_class)
    moreover have "match_len s = ?n + match_len (drop ?n s)"
      using True by (subst match_len.simps) simp
    ultimately show ?thesis
      by (simp add: take_add)
  next
    case False
    then have "match_len s = 0"
      by (subst match_len.simps) auto
    then show ?thesis
      by simp
  qed
qed

text \<open>Deleting the matches of the expression keeps exactly the word bytes, in order.\<close>

lemma ReplaceAllString_filter: "ReplaceAllString s [] = filter is_word_byte s"
proof (induction s "[] :: string" rule: ReplaceAllString.induct)
  case (1 src)
  show ?case
  proof (cases "src = []")
    case True
    then show ?thesis
      by (subst ReplaceAllString.simps) simp
  next
    case False
    show ?thesis
    proof (cases "0 < match_len src")
      case True
      have "filter is_word_byte src =
          filter is_word_byte (take (match_len src) src @ drop (match_len src) src)"
        by simp
      also have "\<dots> = filter is_word_byte (drop (match_len src) src)"
        unfolding filter_append by (simp add: match_len_no_word_byte)
      finally show ?thesis
        using 1(1) False True by (subst ReplaceAllString.simps) simp
    next
      case no_match: False
      with False have "\<not> reg_class (fst (DecodeRuneInString src))"
        using match_len_pos [of src] by auto
      with False have one: "snd (DecodeRuneInString src) = 1" and hd: "is_word_byte (hd src)"
        using Decode_not_class [of src] by auto
      from False obtain c0 rest where src: "src = c0 # rest"
        by (cases src) auto
      show ?thesis
        using 1(2) False no_match one hd
        by (subst ReplaceAllString.simps) (simp add: src)
    qed
  qed
qed

lemma sanitizeFilename_filter:
  "sanitizeFilename s = filter is_word_byte (ReplaceAll_space_underscore s)"
  by (simp add: sanitizeFilename_def ReplaceAllString_filter)

lemma space_not_word_byte: "\<not> is_word_byte CHR '' ''"
  by (simp add: is_word_byte_def in_word_class_def byte_def)

lemma ReplaceAll_space_underscore_word_bytes:
  "list_all is_word_byte s \<Longrightarrow> ReplaceAll_space_underscore s = s"
  by (induction s) (auto simp add: ReplaceAll_space_underscore_def space_not_word_byte)

text \<open>
  Claim C3. \<^verbatim>\<open>sanitizeFilename\<close> replaces every space by an underscore and then removes
  every character that is not an ASCII letter, a digit or an underscore: its result is
  the word bytes of the string with its spaces replaced, in order, so it holds only
  such bytes, and \<^verbatim>\<open>Bob O'Brien\<close> becomes \<^verbatim>\<open>Bob_OBrien\<close>.
\<close>

theorem sanitizeFilename_spec:
  "sanitizeFilename s =
      filter is_word_byte (map (\<lambda>c. if c = CHR '' '' then CHR ''_'' else c) s)
   \<and> (\<forall>c \<in> set (sanitizeFilename s). is_word_byte c)
   \<and> sanitizeFilename ''Bob O'Brien'' = ''Bob_OBrien''"
proof (intro conjI)
  show "sanitizeFilename s =
      filter is_word_byte (map (\<lambda>c. if c = CHR '' '' then CHR ''_'' else c) s)"
    by (simp add: sanitizeFilename_filter ReplaceAll_space_underscore_def)
  show "\<forall>c \<in> set (sanitizeFilename s). is_word_byte c"
    by (simp add: sanitizeFilename_filter)
  show "sanitizeFilename ''Bob O'Brien'' = ''Bob_OBrien''"
    by (simp add: sanitizeFilename_filter ReplaceAll_space_underscore_def is_word_byte_def
        in_word_class_def byte_def)
qed

text \<open>The theorem at a name with a space, punctuation and a two-byte code point
  (\<^verbatim>\<open>U+00E9\<close>, the bytes \<^verbatim>\<open>C3 A9\<close>).\<close>

theorem sanitizeFilename_spec_witness:
  "sanitizeFilename (''Ren'' @ [CHR 0xC3, CHR 0xA9] @ ''e D.'') = ''Rene_D''
   \<and> list_all is_word_byte (sanitizeFilename (''Ren'' @ [CHR 0xC3, CHR 0xA9] @ ''e D.''))"
  using sanitizeFilename_spec [of "''Ren'' @ [CHR 0xC3, CHR 0xA9] @ ''e D.''"]
  by (simp add: is_word_byte_def in_word_class_def byte_def list_all_iff)

text \<open>
  Claim C4. Sanitization is idempotent: sanitizing a sanitized name changes nothing.
\<close>

theorem sanitizeFilename_idempotent:
  "sanitizeFilename (sanitizeFilename s) = sanitizeFilename s"
proof -
  let ?t = "filter is_word_byte (ReplaceAll_space_underscore s)"
  have "list_all is_word_byte ?t"
    by (simp add: list_all_iff)
  then have "ReplaceAll_space_underscore ?t = ?t"
    by (rule ReplaceAll_space_underscore_word_bytes)
  then show ?thesis
    by (simp add: sanitizeFilename_filter)
qed

section \<open>Numbers\<close>

subsection \<open>Integers\<close>

text \<open>
  Go's \<^verbatim>\<open>int\<close> is taken to be 64 bits wide (as on every 64-bit platform): the result of an
  addition or subtraction is wrapped into the signed 64-bit range. Division truncates
  towards zero.
\<close>

definition wrap64 :: "int \<Rightarrow> int" where
  "wrap64 x = (x + 2 ^ 63) mod 2 ^ 64 - 2 ^ 63"

definition go_quot :: "int \<Rightarrow> int \<Rightarrow> int" where
  "go_quot a b = sgn a * sgn b * (\<bar>a\<bar> div \<bar>b\<bar>)"

subsection \<open>Floating point\<close>

text \<open>
  A \<^verbatim>\<open>float64\<close> is an IEEE 754 double: a finite value \<open>m * 2 ^ e\<close> with an integer
  significand of at most 53 bits and an exponent of at least \<open>- 1074\<close>, an infinity
  (\<open>True\<close> for the negative one) or a NaN. \<open>Finite m e\<close> stands for the value
  \<open>m * 2 ^ e\<close>; the sign of a zero is not kept, since no operation of the program tells
  the two zeros apart.
\<close>

datatype float64 = Finite int int | Infinity bool | NaN

text \<open>The number a finite \<^verbatim>\<open>float64\<close> stands for.\<close>

definition float_val :: "int \<Rightarrow> int \<Rightarrow> rat" where
  "float_val m e = of_int m * 2 powi e"

text \<open>
  Rounding to nearest, ties to even, as the hardware does after every operation.
  \<open>round_shift a s\<close> is \<open>a / 2 ^ s\<close> rounded to an integer; \<open>round64 m e\<close> is the
  \<^verbatim>\<open>float64\<close> nearest to \<open>m * 2 ^ e\<close>: the significand is cut to 53 bits (fewer
  where the exponent would fall below \<open>- 1074\<close>, the subnormal range), and a result of
  \<open>2 ^ 1024\<close> or more is an infinity.
\<close>

definition round_shift :: "int \<Rightarrow> nat \<Rightarrow> int" where
  "round_shift a s =
     (let q = a div 2 ^ s; r = a mod 2 ^ s
      in if 2 ^ s < 2 * r \<or> (2 * r = 2 ^ s \<and> odd q) then q + 1 else q)"

definition round64 :: "int \<Rightarrow> int \<Rightarrow> float64" where
  "round64 m e =
     (let a = \<bar>m\<bar>;
          s = max (bitlen a - 53) (- 1074 - e);
          m' = (if s \<le> 0 then a else round_shift a (nat s));
          e' = (if s \<le> 0 then e else e + s)
      in if 1024 < bitlen m' + e' then Infinity (m < 0) else Finite (sgn m * m') e')"

text \<open>The product of two \<^verbatim>\<open>float64\<close> values, and the conversion \<^verbatim>\<open>float64(n)\<close> of an
  integer.\<close>

fun fmul :: "float64 \<Rightarrow> float64 \<Rightarrow> float64" where
  "fmul (Finite m1 e1) (Finite m2 e2) = round64 (m1 * m2) (e1 + e2)"
| "fmul (Finite m e) (Infinity s) = (if m = 0 then NaN else Infinity (s \<noteq> (m < 0)))"
| "fmul (Infinity s) (Finite m e) = (if m = 0 then NaN else Infinity (s \<noteq> (m < 0)))"
| "fmul (Infinity s1) (Infinity s2) = Infinity (s1 \<noteq> s2)"
| "fmul NaN _ = NaN"
| "fmul _ NaN = NaN"

definition float64_of_int :: "int \<Rightarrow> float64" where
  "float64_of_int n = round64 n 0"

text \<open>
  The conversion of a \<^verbatim>\<open>float64\<close> to an integer type discards the fraction (truncation
  towards zero). When the truncated value does not fit the integer type, or the value is
  an infinity or a NaN, the language leaves the result to the implementation: it is
  \<open>impl f\<close>, for a parameter \<open>impl\<close> of the model. \<^verbatim>\<open>int\<close> has 64 bits; \<^verbatim>\<open>fixed.Int26_6\<close>
  is an \<^verbatim>\<open>int32\<close>.
\<close>

fun float64_truncate :: "float64 \<Rightarrow> int option" where
  "float64_truncate (Finite m e) =
     Some (if 0 \<le> e then m * 2 ^ nat e else sgn m * (\<bar>m\<bar> div 2 ^ nat (- e)))"
| "float64_truncate _ = None"

definition int_of_float64 :: "(float64 \<Rightarrow> int) \<Rightarrow> float64 \<Rightarrow> int" where
  "int_of_float64 impl f =
     (case float64_truncate f of
        Some t \<Rightarrow> if - (2 ^ 63) \<le> t \<and> t < 2 ^ 63 then t else impl f
      | None \<Rightarrow> impl f)"

definition int32_of_float64 :: "(float64 \<Rightarrow> int) \<Rightarrow> float64 \<Rightarrow> int" where
  "int32_of_float64 impl f =
     (case float64_truncate f of
        Some t \<Rightarrow> if - (2 ^ 31) \<le> t \<and> t < 2 ^ 31 then t else impl f
      | None \<Rightarrow> impl f)"

text \<open>On amd64 the conversion instruction gives the smallest integer out of range.\<close>

definition amd64_indefinite :: "float64 \<Rightarrow> int" where
  "amd64_indefinite f = - (2 ^ 63)"

section \<open>Layout: the anchor of the text\<close>

text \<open>
  Lines 137 to 142 of \<^verbatim>\<open>main.go\<close>:
  \<^verbatim>\<open>startY := imgHeight - int(float64(imgHeight)**heightPercent)\<close>,
  \<^verbatim>\<open>var startX = int(float64(imgWidth) * *widthPercent)\<close> and, when \<^verbatim>\<open>*centerText\<close> is set,
  \<^verbatim>\<open>startX = int(float64(imgWidth)**widthPercent) - textWidth/2\<close>.
\<close>

definition startY :: "(float64 \<Rightarrow> int) \<Rightarrow> int \<Rightarrow> float64 \<Rightarrow> int" where
  "startY impl imgHeight heightPercent =
     wrap64 (imgHeight - int_of_float64 impl (fmul (float64_of_int imgHeight) heightPercent))"

definition startX :: "(float64 \<Rightarrow> int) \<Rightarrow> int \<Rightarrow> float64 \<Rightarrow> bool \<Rightarrow> int \<Rightarrow> int" where
  "startX impl imgWidth widthPercent centerText textWidth =
     (if centerText
      then wrap64 (int_of_float64 impl (fmul (float64_of_int imgWidth) widthPercent)
                   - go_quot textWidth 2)
      else int_of_float64 impl (fmul (float64_of_int imgWidth) widthPercent))"

text \<open>Truncation towards zero of an exact number, to state what the anchor is.\<close>

definition trunc_toward_zero :: "rat \<Rightarrow> int" where
  "trunc_toward_zero x = (if 0 \<le> x then \<lfloor>x\<rfloor> else \<lceil>x\<rceil>)"

subsection \<open>Products that are exact\<close>

lemma wrap64_id: "- (2 ^ 63) \<le> x \<Longrightarrow> x < 2 ^ 63 \<Longrightarrow> wrap64 x = x"
  by (simp add: wrap64_def)

lemma bitlen_le_53: "\<bar>m\<bar> < 2 ^ 53 \<Longrightarrow> bitlen \<bar>m\<bar> \<le> 53"
  by (simp add: bitlen_le_iff_power)

lemma round64_exact:
  assumes "\<bar>m\<bar> < 2 ^ 53" and "- 1074 \<le> e" and "e \<le> 971"
  shows "round64 m e = Finite m e"
proof -
  have b: "bitlen \<bar>m\<bar> \<le> 53"
    using assms(1) by (rule bitlen_le_53)
  then have "max (bitlen \<bar>m\<bar> - 53) (- 1074 - e) \<le> 0"
    using assms(2) by simp
  moreover have "\<not> 1024 < bitlen \<bar>m\<bar> + e"
    using b assms(3) by simp
  moreover have "sgn m * \<bar>m\<bar> = m"
    by (simp add: mult_sgn_abs)
  ultimately show ?thesis
    by (simp add: round64_def Let_def)
qed

lemma float64_of_int_exact: "\<bar>n\<bar> < 2 ^ 53 \<Longrightarrow> float64_of_int n = Finite n 0"
  by (simp add: float64_of_int_def round64_exact)

lemma float64_truncate_val:
  assumes "e \<le> 0"
  shows "float64_truncate (Finite m e) = Some (trunc_toward_zero (float_val m e))"
proof -
  define k where "k = nat (- e)"
  have e: "e = - int k"
    using assms by (simp add: k_def)
  have v: "float_val m e = of_int m / of_int (2 ^ k)"
    by (simp add: float_val_def e power_int_minus field_simps)
  show ?thesis
  proof (cases "0 \<le> m")
    case True
    then have "0 \<le> float_val m e"
      by (simp add: v)
    moreover have "\<lfloor>float_val m e\<rfloor> = m div 2 ^ k"
      unfolding v by (rule floor_divide_of_int_eq)
    ultimately show ?thesis
      using True by (cases "m = 0") (auto simp add: trunc_toward_zero_def e)
  next
    case False
    then have neg: "float_val m e < 0"
      by (simp add: v divide_neg_pos)
    have "\<lceil>float_val m e\<rceil> = - \<lfloor>of_int (- m) / (of_int (2 ^ k) :: rat)\<rfloor>"
      unfolding v ceiling_def by simp
    also have "\<dots> = - ((- m) div 2 ^ k)"
      by (simp only: floor_divide_of_int_eq)
    finally show ?thesis
      using False neg by (simp add: trunc_toward_zero_def e)
  qed
qed

lemma float_val_scale: "of_int H * float_val m e = float_val (H * m) e"
  by (simp add: float_val_def)

lemma product_exact:
  assumes "\<bar>H\<bar> < 2 ^ 53" and "\<bar>H * m\<bar> < 2 ^ 53" and "- 1074 \<le> e" and "e \<le> 0"
  shows "fmul (float64_of_int H) (Finite m e) = Finite (H * m) e"
  using assms by (simp add: float64_of_int_exact round64_exact)

lemma float64_truncate_small:
  assumes "float64_truncate (Finite m e) = Some t" and "e \<le> 0"
  shows "\<bar>t\<bar> \<le> \<bar>m\<bar>"
proof -
  have "\<bar>m\<bar> div 2 ^ nat (- e) \<le> \<bar>m\<bar> div 1"
    by (rule zdiv_mono2) simp_all
  moreover have "0 \<le> \<bar>m\<bar> div 2 ^ nat (- e)"
    by (simp add: pos_imp_zdiv_nonneg_iff)
  ultimately show ?thesis
    using assms by (auto simp add: abs_mult split: if_splits)
qed

lemma pow_53_63: "(2::int) ^ 53 + 2 ^ 53 < 2 ^ 63"
  by simp

lemma pow_53_62: "(2::int) ^ 53 + 2 ^ 62 < 2 ^ 63"
  by simp

lemma floor_rat_numeral: "\<lfloor>(numeral a :: rat) / numeral b\<rfloor> = numeral a div numeral b"
  using floor_divide_of_int_eq [of "numeral a" "numeral b", where ?'a = rat] by simp

lemma int_of_float64_exact:
  assumes "\<bar>m\<bar> < 2 ^ 53" and "e \<le> 0"
  shows "int_of_float64 impl (Finite m e) = trunc_toward_zero (float_val m e)"
    and "\<bar>int_of_float64 impl (Finite m e)\<bar> < 2 ^ 53"
proof -
  let ?t = "trunc_toward_zero (float_val m e)"
  have t: "float64_truncate (Finite m e) = Some ?t"
    using assms(2) by (rule float64_truncate_val)
  then have "\<bar>?t\<bar> \<le> \<bar>m\<bar>"
    using assms(2) by (rule float64_truncate_small)
  with assms(1) have small: "\<bar>?t\<bar> < 2 ^ 53"
    by linarith
  then have "- (2 ^ 63) \<le> ?t \<and> ?t < 2 ^ 63"
    using pow_53_63 by linarith
  then show "int_of_float64 impl (Finite m e) = ?t"
    by (simp add: int_of_float64_def t del: float64_truncate.simps)
  with small show "\<bar>int_of_float64 impl (Finite m e)\<bar> < 2 ^ 53"
    by simp
qed

lemma anchor_exact:
  assumes "\<bar>n\<bar> < 2 ^ 53" and "\<bar>n * m\<bar> < 2 ^ 53" and "- 1074 \<le> e" and "e \<le> 0"
  shows "int_of_float64 impl (fmul (float64_of_int n) (Finite m e))
           = trunc_toward_zero (of_int n * float_val m e)"
    and "\<bar>int_of_float64 impl (fmul (float64_of_int n) (Finite m e))\<bar> < 2 ^ 53"
proof -
  have p: "fmul (float64_of_int n) (Finite m e) = Finite (n * m) e"
    using assms by (rule product_exact)
  show "int_of_float64 impl (fmul (float64_of_int n) (Finite m e))
           = trunc_toward_zero (of_int n * float_val m e)"
    unfolding p float_val_scale using assms(2,4) by (rule int_of_float64_exact)
  show "\<bar>int_of_float64 impl (fmul (float64_of_int n) (Finite m e))\<bar> < 2 ^ 53"
    unfolding p using assms(2,4) by (rule int_of_float64_exact)
qed

text \<open>The vertical anchor when the product \<open>H * h\<close> needs no rounding: \<open>h = m * 2 ^ e\<close> with
  \<open>H * m\<close> of at most 53 bits.\<close>

lemma startY_exact_aux:
  assumes "0 < H" and "H < 2 ^ 53" and "\<bar>H * m\<bar> < 2 ^ 53" and "- 1074 \<le> e" and "e \<le> 0"
  shows "startY impl H (Finite m e) = H - trunc_toward_zero (of_int H * float_val m e)"
proof -
  let ?t = "int_of_float64 impl (fmul (float64_of_int H) (Finite m e))"
  have H: "\<bar>H\<bar> < 2 ^ 53"
    using assms(1,2) by simp
  have "?t = trunc_toward_zero (of_int H * float_val m e)" and "\<bar>?t\<bar> < 2 ^ 53"
    using H assms(3-5) by (rule anchor_exact)+
  moreover from this H have "wrap64 (H - ?t) = H - ?t"
    using pow_53_63 by (intro wrap64_id) linarith+
  ultimately show ?thesis
    by (simp add: startY_def)
qed

subsection \<open>Any finite product\<close>

lemma trunc_toward_zero_of_int: "trunc_toward_zero (of_int k) = k"
  by (simp add: trunc_toward_zero_def)

lemma float64_truncate_any:
  "float64_truncate (Finite m e) = Some (trunc_toward_zero (float_val m e))"
proof (cases "e \<le> 0")
  case True
  then show ?thesis
    by (rule float64_truncate_val)
next
  case False
  then have "float_val m e = of_int (m * 2 ^ nat e)"
    by (simp add: float_val_def power_int_def)
  then have "trunc_toward_zero (float_val m e) = m * 2 ^ nat e"
    by (simp only: trunc_toward_zero_of_int)
  then show ?thesis
    using False by simp
qed

lemma trunc_toward_zero_abs: "of_int \<bar>trunc_toward_zero x\<bar> \<le> \<bar>x\<bar>"
proof (cases "0 \<le> x")
  case True
  then have "0 \<le> \<lfloor>x\<rfloor>"
    by simp
  then show ?thesis
    using True by (simp add: trunc_toward_zero_def)
next
  case False
  then have "\<lceil>x\<rceil> \<le> 0"
    by (simp add: ceiling_le_zero)
  moreover have "x \<le> of_int \<lceil>x\<rceil>"
    by (rule le_of_int_ceiling)
  ultimately show ?thesis
    using False by (simp add: trunc_toward_zero_def)
qed

lemma int_of_float64_finite:
  assumes "\<bar>float_val m e\<bar> < 2 ^ 62"
  shows "int_of_float64 impl (Finite m e) = trunc_toward_zero (float_val m e)"
    and "\<bar>int_of_float64 impl (Finite m e)\<bar> < 2 ^ 62"
proof -
  let ?t = "trunc_toward_zero (float_val m e)"
  have "(of_int \<bar>?t\<bar> :: rat) < of_int (2 ^ 62)"
    using trunc_toward_zero_abs [of "float_val m e"] assms by simp
  then have small: "\<bar>?t\<bar> < 2 ^ 62"
    by (simp only: of_int_less_iff)
  then have "- (2 ^ 63) \<le> ?t \<and> ?t < 2 ^ 63"
    by (simp add: abs_less_iff)
  then show "int_of_float64 impl (Finite m e) = ?t"
    by (simp add: int_of_float64_def float64_truncate_any del: float64_truncate.simps)
  with small show "\<bar>int_of_float64 impl (Finite m e)\<bar> < 2 ^ 62"
    by simp
qed

lemma startY_finite:
  assumes "0 < H" and "H < 2 ^ 53"
    and "fmul (float64_of_int H) h = Finite pm pe" and "\<bar>float_val pm pe\<bar> < 2 ^ 62"
  shows "startY impl H h = H - trunc_toward_zero (float_val pm pe)"
proof -
  let ?t = "int_of_float64 impl (Finite pm pe)"
  have t: "?t = trunc_toward_zero (float_val pm pe)" and small: "\<bar>?t\<bar> < 2 ^ 62"
    using assms(4) by (rule int_of_float64_finite)+
  have "wrap64 (H - ?t) = H - ?t"
    using small assms(1,2) by (intro wrap64_id) (simp_all add: abs_less_iff)
  then show ?thesis
    by (simp add: startY_def assms(3) t)
qed

subsection \<open>Products that are rounded\<close>

text \<open>
  The product is a \<^verbatim>\<open>float64\<close> product, rounded before it is truncated. With height 3
  and \<open>heightPercent\<close> the \<^verbatim>\<open>float64\<close> nearest to \<open>1/3\<close> (just below it), the product rounds
  up to \<open>1\<close> and the anchor is \<open>3 - 1 = 2\<close>, where exact arithmetic would give
  \<open>3 - 0 = 3\<close>.
\<close>

lemma bitlen_examples:
  "bitlen 3 = 2" "bitlen 18014398509481983 = 54" "bitlen 9007199254740992 = 54"
  by code_simp+

lemma startY_product_rounds_up:
  "startY amd64_indefinite 3 (Finite 6004799503160661 (- 54)) = 2
   \<and> 3 - trunc_toward_zero (of_int 3 * float_val 6004799503160661 (- 54)) = 3"
proof
  have "float64_of_int 3 = Finite 3 0"
    by (simp add: float64_of_int_exact)
  moreover have "round64 (3 * 6004799503160661) (- 54) = Finite 9007199254740992 (- 53)"
    by (simp add: round64_def round_shift_def bitlen_examples)
  ultimately show "startY amd64_indefinite 3 (Finite 6004799503160661 (- 54)) = 2"
    by (simp add: startY_def int_of_float64_def wrap64_def)
  show "3 - trunc_toward_zero (of_int 3 * float_val 6004799503160661 (- 54)) = 3"
    by (simp add: float_val_def trunc_toward_zero_def power_int_minus floor_rat_numeral)
qed

text \<open>Rounding moves the truncated value by one at most, and only upwards.\<close>

lemma round_shift_cases: "round_shift a k = a div 2 ^ k \<or> round_shift a k = a div 2 ^ k + 1"
  by (simp add: round_shift_def Let_def)

lemma div_succ_cases:
  assumes "0 < (N::int)"
  shows "(q + 1) div N = q div N \<or> (q + 1) div N = q div N + 1"
proof -
  have "q div N \<le> (q + 1) div N"
    using assms by (intro zdiv_mono1) simp_all
  moreover have "(q + 1) div N \<le> (q + N) div N"
    using assms by (intro zdiv_mono1) simp_all
  moreover have "(q + N) div N = q div N + 1"
    using assms by simp
  ultimately show ?thesis
    by linarith
qed

lemma int_div_less:
  assumes "0 < (c::int)" and "a < c * b"
  shows "a div c < b"
proof (rule ccontr)
  assume "\<not> a div c < b"
  then have "c * b \<le> c * (a div c)"
    using assms(1) by (intro mult_left_mono) simp_all
  also have "\<dots> \<le> a"
    using assms(1) pos_mod_sign [of c a] mult_div_mod_eq [of c a] by linarith
  finally show False
    using assms(2) by simp
qed

text \<open>The rounded product, truncated, is the exact product truncated or one more.\<close>

lemma round64_truncate_near:
  assumes "0 \<le> a" and "e \<le> 0" and "a < 2 ^ (53 + nat (- e))"
  shows "\<exists>m' e'. round64 a e = Finite m' e'
       \<and> (\<exists>t. float64_truncate (Finite m' e') = Some t
            \<and> (t = a div 2 ^ nat (- e) \<or> t = a div 2 ^ nat (- e) + 1))"
proof -
  define D where "D = nat (- e)"
  define s where "s = max (bitlen \<bar>a\<bar> - 53) (- 1074 - e)"
  have e: "e = - int D"
    using assms(2) by (simp add: D_def)
  have abs: "\<bar>a\<bar> = a"
    using assms(1) by simp
  have "nat (53 + int D) = 53 + D"
    by simp
  then have "a < 2 ^ nat (53 + int D)"
    using assms(3) by (simp only: D_def)
  then have L: "bitlen a \<le> 53 + int D"
    by (simp only: bitlen_le_iff_power) simp
  have sD: "s \<le> int D"
    using L by (simp add: s_def abs e)
  have unf: "round64 a e =
      (if s \<le> 0
       then (if 1024 < bitlen a + e then Infinity (a < 0) else Finite (sgn a * a) e)
       else (if 1024 < bitlen (round_shift a (nat s)) + (e + s) then Infinity (a < 0)
             else Finite (sgn a * round_shift a (nat s)) (e + s)))"
    by (simp add: round64_def Let_def s_def abs)
  show ?thesis
  proof (cases "s \<le> 0")
    case True
    have "\<not> 1024 < bitlen a + e"
      using L by (simp add: e)
    moreover have "sgn a * a = a"
      using assms(1) by (simp add: sgn_if)
    ultimately have r: "round64 a e = Finite a e"
      using True by (simp add: unf)
    have "float64_truncate (Finite a e) = Some (a div 2 ^ D)"
      using assms(1) by (cases "D = 0") (simp_all add: e sgn_if)
    then show ?thesis
      using r by (simp add: D_def)
  next
    case False
    define k where "k = nat s"
    define j where "j = D - k"
    define q' where "q' = round_shift a k"
    have s: "s = int k" and kD: "k \<le> D"
      using False sD by (simp_all add: k_def)
    have Dkj: "D = k + j"
      using kD by (simp add: j_def)
    have q'_cases: "q' = a div 2 ^ k \<or> q' = a div 2 ^ k + 1"
      unfolding q'_def by (rule round_shift_cases)
    have q_nonneg: "0 \<le> a div 2 ^ k"
      using assms(1) by (simp add: pos_imp_zdiv_nonneg_iff)
    then have q'_nonneg: "0 \<le> q'"
      using q'_cases by auto
    have "bitlen \<bar>a\<bar> - 53 \<le> int k"
      using s by (simp add: s_def)
    then have "bitlen a \<le> int (53 + k)"
      by (simp add: abs)
    then have "a < 2 ^ nat (int (53 + k))"
      by (simp only: bitlen_le_iff_power)
    then have "a < 2 ^ (53 + k)"
      by (simp only: nat_int)
    then have "a div 2 ^ k < 2 ^ 53"
      by (intro int_div_less) (simp_all add: power_add mult.commute)
    then have "q' < 2 ^ 54"
      using q'_cases by auto
    then have "bitlen q' \<le> 54"
      by (simp add: bitlen_le_iff_power)
    then have no_inf: "\<not> 1024 < bitlen q' + (e + s)"
      using sD by (simp add: e)
    have sgn: "sgn a * q' = q'"
    proof (cases "a = 0")
      case True
      then show ?thesis
        by (simp add: q'_def round_shift_def)
    next
      case False
      then show ?thesis
        using assms(1) by (simp add: sgn_if)
    qed
    have r: "round64 a e = Finite q' (e + s)"
      using False no_inf sgn by (simp add: unf q'_def k_def)
    have es: "e + s = - int j"
      using kD by (simp add: e s j_def)
    have t: "float64_truncate (Finite q' (e + s)) = Some (q' div 2 ^ j)"
      using q'_nonneg by (cases "j = 0") (simp_all add: es sgn_if)
    have "a div 2 ^ D = (a div 2 ^ k) div 2 ^ j"
      by (simp add: Dkj power_add zdiv_zmult2_eq)
    moreover have "(a div 2 ^ k + 1) div 2 ^ j = (a div 2 ^ k) div 2 ^ j
        \<or> (a div 2 ^ k + 1) div 2 ^ j = (a div 2 ^ k) div 2 ^ j + 1"
      by (rule div_succ_cases) simp
    ultimately have "q' div 2 ^ j = a div 2 ^ D \<or> q' div 2 ^ j = a div 2 ^ D + 1"
      using q'_cases by auto
    then show ?thesis
      using r t by (simp add: D_def del: float64_truncate.simps)
  qed
qed

lemma floor_product:
  assumes "e \<le> 0"
  shows "\<lfloor>of_int n * float_val m e\<rfloor> = (n * m) div 2 ^ nat (- e)"
proof -
  have "of_int n * float_val m e = (of_int (n * m) :: rat) / of_int (2 ^ nat (- e))"
    using assms by (simp add: float_val_def power_int_def field_simps)
  then show ?thesis
    by (simp only: floor_divide_of_int_eq)
qed

lemma anchor_near:
  assumes "0 < n" and "n < 2 ^ 53" and "0 \<le> m" and "e \<le> 0" and "n * m < 2 ^ (53 + nat (- e))"
  shows "int_of_float64 impl (fmul (float64_of_int n) (Finite m e)) = \<lfloor>of_int n * float_val m e\<rfloor>
       \<or> int_of_float64 impl (fmul (float64_of_int n) (Finite m e)) = \<lfloor>of_int n * float_val m e\<rfloor> + 1"
    and "0 \<le> \<lfloor>of_int n * float_val m e\<rfloor>" and "\<lfloor>of_int n * float_val m e\<rfloor> < 2 ^ 53"
proof -
  let ?a = "n * m" and ?D = "nat (- e)"
  have a: "0 \<le> ?a"
    using assms(1,3) by simp
  have fl: "\<lfloor>of_int n * float_val m e\<rfloor> = ?a div 2 ^ ?D"
    using assms(4) by (rule floor_product)
  show lo: "0 \<le> \<lfloor>of_int n * float_val m e\<rfloor>"
    using a by (simp add: fl pos_imp_zdiv_nonneg_iff)
  show hi: "\<lfloor>of_int n * float_val m e\<rfloor> < 2 ^ 53"
    unfolding fl using assms(5) by (intro int_div_less) (simp_all add: power_add mult.commute)
  have p: "fmul (float64_of_int n) (Finite m e) = round64 ?a e"
    using assms(1,2) by (simp add: float64_of_int_exact)
  from round64_truncate_near [OF a assms(4,5)] obtain m' e' t
    where r: "round64 ?a e = Finite m' e'"
      and t: "float64_truncate (Finite m' e') = Some t"
      and near: "t = ?a div 2 ^ ?D \<or> t = ?a div 2 ^ ?D + 1"
    by blast
  have "- (2 ^ 63) \<le> t \<and> t < 2 ^ 63"
    using near lo hi unfolding fl by auto
  then have "int_of_float64 impl (Finite m' e') = t"
    by (simp add: int_of_float64_def t del: float64_truncate.simps)
  then show "int_of_float64 impl (fmul (float64_of_int n) (Finite m e)) = \<lfloor>of_int n * float_val m e\<rfloor>
       \<or> int_of_float64 impl (fmul (float64_of_int n) (Finite m e)) = \<lfloor>of_int n * float_val m e\<rfloor> + 1"
    using near by (simp add: p r fl)
qed

lemma wrap64_diff: "\<bar>a\<bar> < 2 ^ 62 \<Longrightarrow> \<bar>b\<bar> < 2 ^ 62 \<Longrightarrow> wrap64 (a - b) = a - b"
  by (rule wrap64_id) (simp_all add: abs_less_iff)

lemma small_53_62: "0 \<le> (x::int) \<Longrightarrow> x \<le> 2 ^ 53 \<Longrightarrow> \<bar>x\<bar> < 2 ^ 62"
  by simp

lemma startY_near:
  assumes "0 < H" and "H < 2 ^ 53" and "0 \<le> m" and "e \<le> 0" and "H * m < 2 ^ (53 + nat (- e))"
  shows "startY impl H (Finite m e) = H - \<lfloor>of_int H * float_val m e\<rfloor>
       \<or> startY impl H (Finite m e) = H - \<lfloor>of_int H * float_val m e\<rfloor> - 1"
proof -
  let ?t = "int_of_float64 impl (fmul (float64_of_int H) (Finite m e))"
  let ?n = "\<lfloor>of_int H * float_val m e\<rfloor>"
  have near: "?t = ?n \<or> ?t = ?n + 1" and lo: "0 \<le> ?n" and hi: "?n < 2 ^ 53"
    using assms by (rule anchor_near)+
  have "0 \<le> ?t" and "?t \<le> 2 ^ 53"
    using near lo hi by linarith+
  then have "\<bar>?t\<bar> < 2 ^ 62"
    by (rule small_53_62)
  moreover have "\<bar>H\<bar> < 2 ^ 62"
    using assms(1,2) by (intro small_53_62) simp_all
  ultimately have "wrap64 (H - ?t) = H - ?t"
    by (intro wrap64_diff)
  then show ?thesis
    using near by (auto simp add: startY_def)
qed

lemma go_quot_2: "go_quot t 2 = (if 0 \<le> t then t div 2 else - ((- t) div 2))"
  by (simp add: go_quot_def sgn_if)

lemma startX_finite:
  assumes "fmul (float64_of_int W) w = Finite pm pe" and "\<bar>float_val pm pe\<bar> < 2 ^ 62"
    and "\<bar>t\<bar> < 2 ^ 62"
  shows "startX impl W w False t = trunc_toward_zero (float_val pm pe)"
    and "startX impl W w True t = trunc_toward_zero (float_val pm pe) - go_quot t 2"
proof -
  let ?x = "int_of_float64 impl (Finite pm pe)"
  have x: "?x = trunc_toward_zero (float_val pm pe)" and small: "\<bar>?x\<bar> < 2 ^ 62"
    using assms(2) by (rule int_of_float64_finite)+
  have "\<bar>go_quot t 2\<bar> \<le> \<bar>t\<bar>"
    unfolding go_quot_2 by presburger
  then have "\<bar>go_quot t 2\<bar> < 2 ^ 62"
    using assms(3) by linarith
  then have "wrap64 (?x - go_quot t 2) = ?x - go_quot t 2"
    using small by (intro wrap64_diff)
  then show "startX impl W w False t = trunc_toward_zero (float_val pm pe)"
    and "startX impl W w True t = trunc_toward_zero (float_val pm pe) - go_quot t 2"
    by (simp_all add: startX_def assms(1) x)
qed

lemma startX_near:
  assumes "0 < W" and "W < 2 ^ 53" and "0 \<le> m" and "e \<le> 0" and "W * m < 2 ^ (53 + nat (- e))"
    and "\<bar>t\<bar> < 2 ^ 62"
  shows "startX impl W (Finite m e) False t = \<lfloor>of_int W * float_val m e\<rfloor>
       \<or> startX impl W (Finite m e) False t = \<lfloor>of_int W * float_val m e\<rfloor> + 1"
    and "startX impl W (Finite m e) True t = \<lfloor>of_int W * float_val m e\<rfloor> - go_quot t 2
       \<or> startX impl W (Finite m e) True t = \<lfloor>of_int W * float_val m e\<rfloor> + 1 - go_quot t 2"
proof -
  let ?x = "int_of_float64 impl (fmul (float64_of_int W) (Finite m e))"
  let ?n = "\<lfloor>of_int W * float_val m e\<rfloor>"
  have near: "?x = ?n \<or> ?x = ?n + 1" and lo: "0 \<le> ?n" and hi: "?n < 2 ^ 53"
    using assms(1-5) by (rule anchor_near)+
  have "\<bar>go_quot t 2\<bar> \<le> \<bar>t\<bar>"
    unfolding go_quot_2 by presburger
  then have "\<bar>go_quot t 2\<bar> < 2 ^ 62"
    using assms(6) by linarith
  moreover have "0 \<le> ?x" and "?x \<le> 2 ^ 53"
    using near lo hi by linarith+
  then have "\<bar>?x\<bar> < 2 ^ 62"
    by (rule small_53_62)
  ultimately have "wrap64 (?x - go_quot t 2) = ?x - go_quot t 2"
    by (intro wrap64_diff)
  then show "startX impl W (Finite m e) True t = ?n - go_quot t 2
       \<or> startX impl W (Finite m e) True t = ?n + 1 - go_quot t 2"
    using near by (auto simp add: startX_def)
  show "startX impl W (Finite m e) False t = ?n \<or> startX impl W (Finite m e) False t = ?n + 1"
    using near by (simp add: startX_def)
qed

subsection \<open>The vertical anchor\<close>

text \<open>
  Claim C1, amended. The claim states \<open>y = H - round (H * h)\<close>; the conversion
  \<^verbatim>\<open>int(...)\<close> does not round to the nearest integer, it discards the fraction. For every
  image height \<open>0 < H < 2 ^ 53\<close> and every \<open>heightPercent\<close> \<open>h\<close>, the vertical anchor is
  \<open>H\<close> minus the \<^verbatim>\<open>float64\<close> product of \<open>H\<close> and \<open>h\<close> truncated towards zero (the product
  being finite and below \<open>2 ^ 62\<close>). When the product is exact (\<open>h = m * 2 ^ e\<close> with
  \<open>H * m\<close> of at most 53 bits) that is \<open>H\<close> minus \<open>H * h\<close> truncated; for any \<open>h \<ge> 0\<close> with
  \<open>H * h < 2 ^ 53\<close> it is \<open>H - \<lfloor>H * h\<rfloor>\<close> or one less. So \<open>h = 0\<close> gives \<open>H\<close>, \<open>h = 1\<close>
  gives \<open>0\<close>, and \<open>h = 1/2\<close> gives \<open>H - H div 2\<close>, which is \<open>H / 2\<close> rounded up. The
  fraction is measured up from the bottom of the image.
\<close>

theorem startY_truncates:
  assumes "0 < H" and "H < 2 ^ 53"
  shows "(\<forall>pm pe. fmul (float64_of_int H) h = Finite pm pe \<and> \<bar>float_val pm pe\<bar> < 2 ^ 62 \<longrightarrow>
            startY impl H h = H - trunc_toward_zero (float_val pm pe))
       \<and> (\<forall>m e. \<bar>H * m\<bar> < 2 ^ 53 \<and> - 1074 \<le> e \<and> e \<le> 0 \<longrightarrow>
            startY impl H (Finite m e) = H - trunc_toward_zero (of_int H * float_val m e))
       \<and> (\<forall>m e. 0 \<le> m \<and> e \<le> 0 \<and> H * m < 2 ^ (53 + nat (- e)) \<longrightarrow>
            startY impl H (Finite m e) = H - \<lfloor>of_int H * float_val m e\<rfloor>
            \<or> startY impl H (Finite m e) = H - \<lfloor>of_int H * float_val m e\<rfloor> - 1)
       \<and> startY impl H (Finite 0 0) = H
       \<and> startY impl H (Finite 1 0) = 0
       \<and> startY impl H (Finite 1 (- 1)) = H - H div 2"
proof (intro conjI allI impI)
  fix pm pe
  assume "fmul (float64_of_int H) h = Finite pm pe \<and> \<bar>float_val pm pe\<bar> < 2 ^ 62"
  then show "startY impl H h = H - trunc_toward_zero (float_val pm pe)"
    using assms by (intro startY_finite) simp_all
next
  fix m e :: int
  assume "\<bar>H * m\<bar> < 2 ^ 53 \<and> - 1074 \<le> e \<and> e \<le> 0"
  then show "startY impl H (Finite m e) = H - trunc_toward_zero (of_int H * float_val m e)"
    using assms by (intro startY_exact_aux) simp_all
next
  fix m e :: int
  assume "0 \<le> m \<and> e \<le> 0 \<and> H * m < 2 ^ (53 + nat (- e))"
  then show "startY impl H (Finite m e) = H - \<lfloor>of_int H * float_val m e\<rfloor>
      \<or> startY impl H (Finite m e) = H - \<lfloor>of_int H * float_val m e\<rfloor> - 1"
    using assms by (intro startY_near) simp_all
next
  show "startY impl H (Finite 0 0) = H"
    using assms by (simp add: startY_exact_aux float_val_def trunc_toward_zero_def)
  show "startY impl H (Finite 1 0) = 0"
    using assms by (simp add: startY_exact_aux float_val_def trunc_toward_zero_def)
  have "\<lfloor>(of_int H :: rat) / of_int 2\<rfloor> = H div 2"
    by (rule floor_divide_of_int_eq)
  then show "startY impl H (Finite 1 (- 1)) = H - H div 2"
    using assms by (simp add: startY_exact_aux float_val_def trunc_toward_zero_def)
qed

text \<open>The theorem at height 3: \<open>h = 1/2\<close> gives 2 (not \<open>3 div 2 = 1\<close>), \<open>h = 1\<close> gives 0,
  \<open>h = 0\<close> gives 3, and \<open>h = 3/4\<close> gives \<open>3 - 2 = 1\<close>.\<close>

theorem startY_truncates_witness:
  "startY amd64_indefinite 3 (Finite 1 (- 1)) = 2 \<and> startY amd64_indefinite 3 (Finite 1 0) = 0
   \<and> startY amd64_indefinite 3 (Finite 0 0) = 3 \<and> startY amd64_indefinite 3 (Finite 3 (- 2)) = 1"
proof -
  have H: "(0::int) < 3" "(3::int) < 2 ^ 53"
    by simp_all
  note t = startY_truncates [OF H, of "Finite 3 (- 2)" amd64_indefinite]
  have "\<bar>3 * 3\<bar> < (2::int) ^ 53 \<and> - 1074 \<le> (- 2 :: int) \<and> (- 2 :: int) \<le> 0"
    by simp
  with t have "startY amd64_indefinite 3 (Finite 3 (- 2))
      = 3 - trunc_toward_zero (of_int 3 * float_val 3 (- 2))"
    by blast
  then have "startY amd64_indefinite 3 (Finite 3 (- 2)) = 1"
    by (simp add: float_val_def trunc_toward_zero_def power_int_minus floor_rat_numeral)
  with t show ?thesis
    by simp
qed

text \<open>
  The claim as stated fails at height 4 and \<open>h = 7/16\<close>: the product is \<open>1.75\<close>, the
  program computes \<open>4 - 1 = 3\<close>, and \<open>4 - round 1.75 = 2\<close>. It fails at height 3 and
  \<open>h = 1/2\<close> as well: the anchor is 2, and \<open>3 div 2 = 1\<close>.
\<close>

theorem startY_round_counterexample:
  "startY amd64_indefinite 4 (Finite 7 (- 4)) \<noteq> 4 - round (4 * float_val 7 (- 4))
   \<and> startY amd64_indefinite 3 (Finite 1 (- 1)) \<noteq> 3 div 2"
proof -
  have "startY amd64_indefinite 4 (Finite 7 (- 4)) = 4 - trunc_toward_zero (of_int 4 * float_val 7 (- 4))"
    by (rule startY_exact_aux) simp_all
  moreover have "startY amd64_indefinite 3 (Finite 1 (- 1)) = 3 - trunc_toward_zero (of_int 3 * float_val 1 (- 1))"
    by (rule startY_exact_aux) simp_all
  ultimately show ?thesis
    by (simp add: float_val_def trunc_toward_zero_def round_def power_int_minus floor_rat_numeral)
qed

subsection \<open>The horizontal anchor\<close>

lemma startX_exact_aux:
  assumes "0 < W" and "W < 2 ^ 53" and "\<bar>W * m\<bar> < 2 ^ 53" and "- 1074 \<le> e" and "e \<le> 0"
    and "\<bar>t\<bar> < 2 ^ 62"
  shows "startX impl W (Finite m e) False t = trunc_toward_zero (of_int W * float_val m e)"
    and "startX impl W (Finite m e) True t
           = trunc_toward_zero (of_int W * float_val m e) - go_quot t 2"
proof -
  let ?x = "int_of_float64 impl (fmul (float64_of_int W) (Finite m e))"
  have W: "\<bar>W\<bar> < 2 ^ 53"
    using assms(1,2) by simp
  have x: "?x = trunc_toward_zero (of_int W * float_val m e)" and small: "\<bar>?x\<bar> < 2 ^ 53"
    using W assms(3-5) by (rule anchor_exact)+
  have "\<bar>go_quot t 2\<bar> \<le> \<bar>t\<bar>"
    unfolding go_quot_2 by presburger
  with small assms(6) have "wrap64 (?x - go_quot t 2) = ?x - go_quot t 2"
    using pow_53_62 by (intro wrap64_id) linarith+
  with x show "startX impl W (Finite m e) False t = trunc_toward_zero (of_int W * float_val m e)"
    and "startX impl W (Finite m e) True t
           = trunc_toward_zero (of_int W * float_val m e) - go_quot t 2"
    by (simp_all add: startX_def)
qed

text \<open>
  Claim C2, amended. For every image width \<open>0 < W < 2 ^ 53\<close>, every \<open>widthPercent\<close> \<open>w\<close>
  and every text width \<open>t\<close> (below \<open>2 ^ 62\<close> in absolute value), the horizontal anchor is
  the \<^verbatim>\<open>float64\<close> product of \<open>W\<close> and \<open>w\<close> truncated towards zero (not rounded to nearest)
  when the centering flag is false, and that number minus \<open>t / 2\<close> when it is true, where
  the division truncates towards zero as well. The truncated product is \<open>W * w\<close> truncated
  when the product is exact, and \<open>\<lfloor>W * w\<rfloor>\<close> or one more for any \<open>w \<ge> 0\<close> with
  \<open>W * w < 2 ^ 53\<close>.
\<close>

theorem startX_truncates:
  assumes "0 < W" and "W < 2 ^ 53" and "\<bar>t\<bar> < 2 ^ 62"
  shows "(\<forall>pm pe. fmul (float64_of_int W) w = Finite pm pe \<and> \<bar>float_val pm pe\<bar> < 2 ^ 62 \<longrightarrow>
            startX impl W w False t = trunc_toward_zero (float_val pm pe)
            \<and> startX impl W w True t = trunc_toward_zero (float_val pm pe) - go_quot t 2)
       \<and> (\<forall>m e. \<bar>W * m\<bar> < 2 ^ 53 \<and> - 1074 \<le> e \<and> e \<le> 0 \<longrightarrow>
            startX impl W (Finite m e) False t = trunc_toward_zero (of_int W * float_val m e)
            \<and> startX impl W (Finite m e) True t
                = trunc_toward_zero (of_int W * float_val m e) - go_quot t 2)
       \<and> (\<forall>m e. 0 \<le> m \<and> e \<le> 0 \<and> W * m < 2 ^ (53 + nat (- e)) \<longrightarrow>
            (startX impl W (Finite m e) False t = \<lfloor>of_int W * float_val m e\<rfloor>
             \<or> startX impl W (Finite m e) False t = \<lfloor>of_int W * float_val m e\<rfloor> + 1)
            \<and> (startX impl W (Finite m e) True t = \<lfloor>of_int W * float_val m e\<rfloor> - go_quot t 2
                \<or> startX impl W (Finite m e) True t
                    = \<lfloor>of_int W * float_val m e\<rfloor> + 1 - go_quot t 2))
       \<and> go_quot t 2 = (if 0 \<le> t then t div 2 else - ((- t) div 2))"
proof (intro conjI allI impI)
  fix pm pe
  assume p: "fmul (float64_of_int W) w = Finite pm pe \<and> \<bar>float_val pm pe\<bar> < 2 ^ 62"
  then show "startX impl W w False t = trunc_toward_zero (float_val pm pe)"
    using assms(3) by (intro startX_finite) simp_all
  from p show "startX impl W w True t = trunc_toward_zero (float_val pm pe) - go_quot t 2"
    using assms(3) by (intro startX_finite) simp_all
next
  fix m e :: int
  assume ex: "\<bar>W * m\<bar> < 2 ^ 53 \<and> - 1074 \<le> e \<and> e \<le> 0"
  then show "startX impl W (Finite m e) False t = trunc_toward_zero (of_int W * float_val m e)"
    using assms by (intro startX_exact_aux) simp_all
  from ex show "startX impl W (Finite m e) True t
      = trunc_toward_zero (of_int W * float_val m e) - go_quot t 2"
    using assms by (intro startX_exact_aux) simp_all
next
  fix m e :: int
  assume n: "0 \<le> m \<and> e \<le> 0 \<and> W * m < 2 ^ (53 + nat (- e))"
  then show "startX impl W (Finite m e) False t = \<lfloor>of_int W * float_val m e\<rfloor>
      \<or> startX impl W (Finite m e) False t = \<lfloor>of_int W * float_val m e\<rfloor> + 1"
    using assms by (intro startX_near) simp_all
  from n show "startX impl W (Finite m e) True t = \<lfloor>of_int W * float_val m e\<rfloor> - go_quot t 2
      \<or> startX impl W (Finite m e) True t = \<lfloor>of_int W * float_val m e\<rfloor> + 1 - go_quot t 2"
    using assms by (intro startX_near) simp_all
next
  show "go_quot t 2 = (if 0 \<le> t then t div 2 else - ((- t) div 2))"
    by (rule go_quot_2)
qed

text \<open>The theorem at width 5, \<open>w = 1/2\<close> and text width 7: the anchors are 2 and
  \<open>2 - 3 = - 1\<close>.\<close>

theorem startX_truncates_witness:
  "startX amd64_indefinite 5 (Finite 1 (- 1)) False 7 = 2
   \<and> startX amd64_indefinite 5 (Finite 1 (- 1)) True 7 = - 1"
proof -
  have W: "(0::int) < 5" "(5::int) < 2 ^ 53" "\<bar>7\<bar> < (2::int) ^ 62"
    by simp_all
  have "\<bar>5 * 1\<bar> < (2::int) ^ 53 \<and> - 1074 \<le> (- 1 :: int) \<and> (- 1 :: int) \<le> 0"
    by simp
  with startX_truncates [OF W, of "Finite 1 (- 1)" amd64_indefinite]
  have "startX amd64_indefinite 5 (Finite 1 (- 1)) False 7
      = trunc_toward_zero (of_int 5 * float_val 1 (- 1))"
    and "startX amd64_indefinite 5 (Finite 1 (- 1)) True 7
      = trunc_toward_zero (of_int 5 * float_val 1 (- 1)) - go_quot 7 2"
    by blast+
  then show ?thesis
    by (simp add: float_val_def trunc_toward_zero_def power_int_minus floor_rat_numeral go_quot_2)
qed

text \<open>The claim as stated fails at width 4 and \<open>w = 7/16\<close>: the program computes 1
  (and \<open>1 - 5\<close> when centering a text of width 10), and \<open>round 1.75 = 2\<close>.\<close>

theorem startX_round_counterexample:
  "startX amd64_indefinite 4 (Finite 7 (- 4)) False 10 \<noteq> round (4 * float_val 7 (- 4))
   \<and> startX amd64_indefinite 4 (Finite 7 (- 4)) True 10
       \<noteq> round (4 * float_val 7 (- 4)) - 10 div 2"
proof -
  have "\<bar>int_of_float64 amd64_indefinite (fmul (float64_of_int 4) (Finite 7 (- 4)))\<bar> < 2 ^ 53"
    by (rule anchor_exact) simp_all
  moreover have "int_of_float64 amd64_indefinite (fmul (float64_of_int 4) (Finite 7 (- 4)))
      = trunc_toward_zero (of_int 4 * float_val 7 (- 4))"
    by (rule anchor_exact) simp_all
  ultimately show ?thesis
    by (simp add: startX_def go_quot_2 wrap64_def float_val_def trunc_toward_zero_def round_def
        power_int_minus floor_rat_numeral)
qed

section \<open>The libraries and the world\<close>

text \<open>
  \<^verbatim>\<open>main.go\<close> calls the standard library, \<^verbatim>\<open>golang.org/x/image\<close> and \<^verbatim>\<open>freetype\<close>. What
  these packages compute from the bytes of a file or the outlines of a font is not part
  of the program; it is a parameter of the model, one field of the record \<open>lib\<close> or
  \<open>font\<close> per function. What the program does with their results is modelled in full.

  An \<^verbatim>\<open>error\<close> value is its message. A color of four bytes is a \<^verbatim>\<open>color.RGBA\<close> or a
  \<^verbatim>\<open>color.NRGBA\<close>; the four 16-bit values that the method \<^verbatim>\<open>RGBA()\<close> of a \<^verbatim>\<open>color.Color\<close>
  returns are an \<open>rgba64\<close>. The pixels of an image are its width, its height and a value
  at every point; the bounds start at the origin, as the PNG decoder returns them. A
  raster is the pixels of an image that stores four bytes for each.
\<close>

type_synonym error = string

type_synonym rgba = "8 word \<times> 8 word \<times> 8 word \<times> 8 word"

type_synonym rgba64 = "16 word \<times> 16 word \<times> 16 word \<times> 16 word"

record 'c pixels =
  Dx :: int
  Dy :: int
  Pix :: "int \<times> int \<Rightarrow> 'c"

type_synonym raster = "rgba pixels"

text \<open>
  An \<^verbatim>\<open>image.Image\<close> is a value of one of several types, and \<^verbatim>\<open>draw.Draw\<close> treats them
  differently. \<^verbatim>\<open>image.NewRGBA\<close> makes an \<^verbatim>\<open>*image.RGBA\<close>, whose four bytes per pixel are
  alpha-premultiplied. \<^verbatim>\<open>image.Decode\<close>, with the PNG decoder the only one registered,
  returns an \<^verbatim>\<open>*image.RGBA\<close> for 8-bit truecolor without transparency, an \<^verbatim>\<open>*image.NRGBA\<close>,
  whose four bytes per pixel are not premultiplied, for 8-bit truecolor or gray with
  transparency, and an image of another type (\<^verbatim>\<open>Gray\<close>, \<^verbatim>\<open>Gray16\<close>, \<^verbatim>\<open>Paletted\<close>,
  \<^verbatim>\<open>RGBA64\<close>, \<^verbatim>\<open>NRGBA64\<close>) otherwise. Of an image of another type the model keeps what
  \<^verbatim>\<open>draw.Draw\<close> reads from it: its bounds and \<^verbatim>\<open>At(x, y).RGBA()\<close> at every point.
\<close>

datatype image =
    RGBA raster
  | NRGBA raster
  | Other "rgba64 pixels"

text \<open>\<^verbatim>\<open>img.Bounds().Dx()\<close> and \<^verbatim>\<open>img.Bounds().Dy()\<close>.\<close>

fun Bounds_Dx :: "image \<Rightarrow> int" where
  "Bounds_Dx (RGBA img) = Dx img"
| "Bounds_Dx (NRGBA img) = Dx img"
| "Bounds_Dx (Other img) = Dx img"

fun Bounds_Dy :: "image \<Rightarrow> int" where
  "Bounds_Dy (RGBA img) = Dy img"
| "Bounds_Dy (NRGBA img) = Dy img"
| "Bounds_Dy (Other img) = Dy img"

text \<open>
  A parsed \<^verbatim>\<open>truetype.Font\<close>: \<open>Index f ch\<close> is \<^verbatim>\<open>f.Index(ch)\<close>, the glyph of a code point;
  \<open>AdvanceWidth f scale i\<close> is \<^verbatim>\<open>f.HMetric(scale, i).AdvanceWidth\<close>. The last two fields
  are what a \<^verbatim>\<open>freetype.Context\<close> set up with this font, a font size, 72 DPI and no
  hinting computes when it draws: the kerning between two glyphs, and for a glyph at a
  pen position either an error or the advance of the pen and the coverage (alpha) of
  every pixel of the destination.
\<close>

record font =
  Index :: "rune \<Rightarrow> nat"
  AdvanceWidth :: "int \<Rightarrow> nat \<Rightarrow> int"
  Kern :: "float64 \<Rightarrow> nat \<Rightarrow> nat \<Rightarrow> int"
  glyph :: "float64 \<Rightarrow> nat \<Rightarrow> int \<times> int \<Rightarrow> error + int \<times> (int \<times> int \<Rightarrow> 8 word)"

text \<open>
  The other collaborators: the table \<^verbatim>\<open>colornames.Map\<close>; \<^verbatim>\<open>strings.ToLower\<close> on a string
  that is not pure ASCII (it depends on the Unicode tables); \<^verbatim>\<open>csv.Reader.ReadAll\<close>,
  \<^verbatim>\<open>image.Decode\<close>, \<^verbatim>\<open>freetype.ParseFont\<close> and \<^verbatim>\<open>png.Encode\<close> on the bytes of a file or on
  an image; \<^verbatim>\<open>filepath.Join\<close>; the error of \<^verbatim>\<open>os.Create\<close> on a path, if any; the color
  of a destination pixel after a glyph is composed over it with a given coverage; what
  \<^verbatim>\<open>draw.Draw\<close> and \<^verbatim>\<open>draw.DrawMask\<close> leave in a destination that is not an
  \<^verbatim>\<open>*image.RGBA\<close>; and the result of a conversion from \<^verbatim>\<open>float64\<close> that is out of range.
\<close>

record lib =
  colornames_Map :: "string \<rightharpoonup> rgba"
  unicode_ToLower :: "string \<Rightarrow> string"
  csv_ReadAll :: "string \<Rightarrow> error + string list list"
  image_Decode :: "string \<Rightarrow> error + image"
  freetype_ParseFont :: "string \<Rightarrow> error + font"
  png_Encode :: "image \<Rightarrow> error + string"
  filepath_Join :: "string \<Rightarrow> string \<Rightarrow> string"
  os_Create_error :: "string \<Rightarrow> error option"
  glyph_over :: "rgba \<Rightarrow> 8 word \<Rightarrow> rgba \<Rightarrow> rgba"
  Draw_other :: "image \<Rightarrow> image \<Rightarrow> image"
  DrawMask_other :: "image \<Rightarrow> rgba \<Rightarrow> (int \<times> int \<Rightarrow> 8 word) \<Rightarrow> image"
  float_conv :: "float64 \<Rightarrow> int"

text \<open>
  The world the program runs in: the files (path to contents) and directories, the
  images in memory, and what was printed on standard output. An image value of Go is a
  pointer to its pixels; here it is an index into \<open>heap\<close>, so that two names for one
  image share its pixels, and a new image is a new cell at the end of the list.
\<close>

datatype event =
    Println_color rgba
  | Usage
  | Input_summary nat int int
  | Saved string

record world =
  files :: "string \<rightharpoonup> string"
  dirs :: "string set"
  heap :: "image list"
  stdout :: "event list"

text \<open>The command line flags, lines 23 to 33.\<close>

record flags =
  csvFilePath :: string
  imagePath :: string
  outputPath :: string
  fontPath :: string
  fontSize :: float64
  srcColorName :: string
  widthPercent :: float64
  heightPercent :: float64
  centerText :: bool

text \<open>\<^verbatim>\<open>os.Stat\<close> finds a path that is a file or a directory; \<^verbatim>\<open>os.Open\<close> followed by
  reading gives the contents of a file.\<close>

definition os_Stat_exists :: "world \<Rightarrow> string \<Rightarrow> bool" where
  "os_Stat_exists w p \<longleftrightarrow> files w p \<noteq> None \<or> p \<in> dirs w"

definition os_Open :: "world \<Rightarrow> string \<Rightarrow> error + string" where
  "os_Open w p = (case files w p of None \<Rightarrow> Inl ''open: no such file'' | Some c \<Rightarrow> Inr c)"

definition print :: "event \<Rightarrow> world \<Rightarrow> world" where
  "print e w = w\<lparr>stdout := stdout w @ [e]\<rparr>"

section \<open>Reading the names\<close>

text \<open>
  \<^verbatim>\<open>readNamesFromCSV\<close>, lines 173 to 191. The loop
  \<^verbatim>\<open>for _, record := range records { names = append(names, record...) }\<close> is
  \<open>append_records\<close>, started with no names.
\<close>

fun append_records :: "string list \<Rightarrow> string list list \<Rightarrow> string list" where
  "append_records names [] = names"
| "append_records names (record # records) = append_records (names @ record) records"

definition readNamesFromCSV :: "lib \<Rightarrow> world \<Rightarrow> string \<Rightarrow> error + string list" where
  "readNamesFromCSV L w filepath =
     (case os_Open w filepath of
        Inl err \<Rightarrow> Inl err
      | Inr file \<Rightarrow>
          (case csv_ReadAll L file of
             Inl err \<Rightarrow> Inl err
           | Inr records \<Rightarrow> Inr (append_records [] records)))"

section \<open>Resolving the color\<close>

text \<open>
  Lines 63 and 64: \<^verbatim>\<open>*srcColorName = strings.ToLower(*srcColorName)\<close> and
  \<^verbatim>\<open>srcColor, ok := colornames.Map[*srcColorName]\<close>. \<^verbatim>\<open>strings.ToLower\<close> maps the bytes
  \<^verbatim>\<open>A\<close> to \<^verbatim>\<open>Z\<close> of a pure ASCII string to lower case by adding \<^verbatim>\<open>'a' - 'A'\<close>, and hands any
  other string to the Unicode tables.
\<close>

definition ascii_upper :: "char \<Rightarrow> bool" where
  "ascii_upper c \<longleftrightarrow> byte CHR ''A'' \<le> byte c \<and> byte c \<le> byte CHR ''Z''"

definition ascii_lower :: "char \<Rightarrow> char" where
  "ascii_lower c =
     (if ascii_upper c then char_of (byte c + (byte CHR ''a'' - byte CHR ''A'')) else c)"

definition ToLower :: "(string \<Rightarrow> string) \<Rightarrow> string \<Rightarrow> string" where
  "ToLower unicode s =
     (if list_all (\<lambda>c. byte c < 0x80) s then map ascii_lower s else unicode s)"

definition lookupColor :: "lib \<Rightarrow> string \<Rightarrow> rgba option" where
  "lookupColor L name = colornames_Map L (ToLower (unicode_ToLower L) name)"

section \<open>Measuring a text\<close>

text \<open>
  \<^verbatim>\<open>getTextWidth\<close>, lines 194 to 201: for every code point of the text,
  \<^verbatim>\<open>aw := font.HMetric(fixed.Int26_6(size), font.Index(ch)).AdvanceWidth\<close> and
  \<^verbatim>\<open>width += int(aw)\<close>. The conversion \<^verbatim>\<open>fixed.Int26_6(size)\<close> is a conversion of a
  \<^verbatim>\<open>float64\<close> to an \<^verbatim>\<open>int32\<close>.
\<close>

fun getTextWidth_loop :: "font \<Rightarrow> int \<Rightarrow> rune list \<Rightarrow> int \<Rightarrow> int" where
  "getTextWidth_loop f scale [] width = width"
| "getTextWidth_loop f scale (ch # rest) width =
     getTextWidth_loop f scale rest (wrap64 (width + AdvanceWidth f scale (Index f ch)))"

definition getTextWidth :: "(float64 \<Rightarrow> int) \<Rightarrow> string \<Rightarrow> font \<Rightarrow> float64 \<Rightarrow> int" where
  "getTextWidth impl text f sz =
     getTextWidth_loop f (int32_of_float64 impl sz) (runes text) 0"

section \<open>Images and drawing\<close>

definition in_bounds :: "'c pixels \<Rightarrow> int \<times> int \<Rightarrow> bool" where
  "in_bounds img p \<longleftrightarrow> 0 \<le> fst p \<and> fst p < Dx img \<and> 0 \<le> snd p \<and> snd p < Dy img"

text \<open>\<^verbatim>\<open>image.NewRGBA\<close>: every pixel is transparent black.\<close>

definition NewRGBA :: "int \<Rightarrow> int \<Rightarrow> raster" where
  "NewRGBA w h = \<lparr>Dx = w, Dy = h, Pix = (\<lambda>p. (0, 0, 0, 0))\<rparr>"

text \<open>
  \<^verbatim>\<open>draw.Draw(dst, dst.Bounds(), src, image.Point{}, draw.Over)\<close> clips the rectangle to
  the bounds of both images and composes every source pixel in it over the destination
  pixel. For a destination of type \<^verbatim>\<open>*image.RGBA\<close> the package has one loop per type of
  source. In all of them \<open>m = 0xFFFF\<close>, the arithmetic is on \<^verbatim>\<open>uint32\<close>, and the result
  is converted to \<^verbatim>\<open>uint8\<close>, which keeps the low byte.

  From an \<^verbatim>\<open>*image.RGBA\<close> (\<^verbatim>\<open>drawCopyOver\<close>): with a source channel \<open>s\<close> and the source
  alpha \<open>sa\<close>, both scaled to 16 bits by \<open>0x101\<close>, a destination channel \<open>d\<close> becomes
  \<^verbatim>\<open>uint8((uint32(d)*a/m + s) >> 8)\<close> where \<^verbatim>\<open>a = (m - sa) * 0x101\<close>. Nothing exceeds
  \<open>2 ^ 32\<close>, so it is written on natural numbers.
\<close>

definition over_channel :: "8 word \<Rightarrow> 8 word \<Rightarrow> 8 word \<Rightarrow> 8 word" where
  "over_channel d s sa =
     of_nat ((unat d * ((0xFFFF - unat sa * 0x101) * 0x101) div 0xFFFF + unat s * 0x101) div 256)"

fun drawCopyOver_pixel :: "rgba \<Rightarrow> rgba \<Rightarrow> rgba" where
  "drawCopyOver_pixel (dr, dg, db, da) (sr, sg, sb, sa) =
     (over_channel dr sr sa, over_channel dg sg sa, over_channel db sb sa, over_channel da sa sa)"

text \<open>
  From an \<^verbatim>\<open>*image.NRGBA\<close> (\<^verbatim>\<open>drawNRGBAOver\<close>): the source is first premultiplied,
  \<^verbatim>\<open>sa := uint32(s[3]) * 0x101\<close> and \<^verbatim>\<open>sr := uint32(s[0]) * sa / 0xff\<close>, and then composed
  as before, \<^verbatim>\<open>uint8((dr*a/m + sr) >> 8)\<close>; the alpha channel is composed as in
  \<^verbatim>\<open>drawCopyOver\<close>.
\<close>

definition nrgba_over_channel :: "8 word \<Rightarrow> 8 word \<Rightarrow> 8 word \<Rightarrow> 8 word" where
  "nrgba_over_channel d s sa =
     of_nat ((unat d * ((0xFFFF - unat sa * 0x101) * 0x101) div 0xFFFF
              + unat s * (unat sa * 0x101) div 0xFF) div 256)"

fun drawNRGBAOver_pixel :: "rgba \<Rightarrow> rgba \<Rightarrow> rgba" where
  "drawNRGBAOver_pixel (dr, dg, db, da) (sr, sg, sb, sa) =
     (nrgba_over_channel dr sr sa, nrgba_over_channel dg sg sa, nrgba_over_channel db sb sa,
      over_channel da sa sa)"

text \<open>
  From an image of another type (\<^verbatim>\<open>drawRGBA\<close> without a mask, so \<^verbatim>\<open>ma = m\<close>): with
  \<^verbatim>\<open>sr, sg, sb, sa := src.At(sx, sy).RGBA()\<close>, a destination channel becomes
  \<^verbatim>\<open>uint8((dr*a + sr*ma) / m >> 8)\<close> where \<^verbatim>\<open>a = (m - (sa * ma / m)) * 0x101\<close>. The sum can
  exceed \<open>2 ^ 32\<close> for a color whose channel is above its alpha, and wraps. (The package
  has a loop of its own for an \<^verbatim>\<open>*image.Gray\<close>, which stores the gray value and an alpha
  of 255: the bytes that this one stores for the color of a gray pixel.)
\<close>

definition rgba64_over_channel :: "8 word \<Rightarrow> 16 word \<Rightarrow> 16 word \<Rightarrow> 8 word" where
  "rgba64_over_channel d s sa =
     of_nat ((unat d * ((0xFFFF - unat sa * 0xFFFF div 0xFFFF) * 0x101) + unat s * 0xFFFF) mod 2 ^ 32
               div 0xFFFF div 256)"

fun drawRGBA_pixel :: "rgba \<Rightarrow> rgba64 \<Rightarrow> rgba" where
  "drawRGBA_pixel (dr, dg, db, da) (sr, sg, sb, sa) =
     (rgba64_over_channel dr sr sa, rgba64_over_channel dg sg sa, rgba64_over_channel db sb sa,
      rgba64_over_channel da sa sa)"

text \<open>The loop over the points of the clipped rectangle, and the choice of the loop by
  the types of the two images.\<close>

definition draw_pixels :: "(rgba \<Rightarrow> 'c \<Rightarrow> rgba) \<Rightarrow> raster \<Rightarrow> 'c pixels \<Rightarrow> raster" where
  "draw_pixels over dst src =
     dst\<lparr>Pix := (\<lambda>p. if in_bounds dst p \<and> in_bounds src p
                     then over (Pix dst p) (Pix src p) else Pix dst p)\<rparr>"

fun Draw_Over :: "lib \<Rightarrow> image \<Rightarrow> image \<Rightarrow> image" where
  "Draw_Over L (RGBA dst) (RGBA src) = RGBA (draw_pixels drawCopyOver_pixel dst src)"
| "Draw_Over L (RGBA dst) (NRGBA src) = RGBA (draw_pixels drawNRGBAOver_pixel dst src)"
| "Draw_Over L (RGBA dst) (Other src) = RGBA (draw_pixels drawRGBA_pixel dst src)"
| "Draw_Over L dst src = Draw_other L dst src"

text \<open>
  \<^verbatim>\<open>draw.DrawMask\<close> of a uniform color through the coverage of a glyph, clipped to the
  bounds of the destination (\<^verbatim>\<open>c.SetClip(imgCopy.Bounds())\<close>).
\<close>

fun DrawMask_Over :: "lib \<Rightarrow> image \<Rightarrow> rgba \<Rightarrow> (int \<times> int \<Rightarrow> 8 word) \<Rightarrow> image" where
  "DrawMask_Over L (RGBA dst) colour gmask =
     RGBA (dst\<lparr>Pix := (\<lambda>p. if in_bounds dst p then glyph_over L colour (gmask p) (Pix dst p)
                            else Pix dst p)\<rparr>)"
| "DrawMask_Over L dst colour gmask = DrawMask_other L dst colour gmask"

text \<open>\<^verbatim>\<open>freetype.Pt(x, y)\<close>: the point in 26.6 fixed point, each coordinate an
  \<^verbatim>\<open>int32\<close>.\<close>

definition wrap32 :: "int \<Rightarrow> int" where
  "wrap32 x = (x + 2 ^ 31) mod 2 ^ 32 - 2 ^ 31"

definition Pt :: "int \<Rightarrow> int \<Rightarrow> int \<times> int" where
  "Pt x y = (wrap32 (x * 64), wrap32 (y * 64))"

text \<open>
  \<^verbatim>\<open>c.DrawString(name, pt)\<close> on the image at index \<open>dst\<close> of the heap: for every code
  point of the string, in order, the pen moves by the kerning with the glyph before,
  the glyph is drawn at the pen into the destination and the pen advances. The first
  glyph that cannot be loaded ends the call with its error.
\<close>

fun DrawString ::
  "lib \<Rightarrow> font \<Rightarrow> float64 \<Rightarrow> rgba \<Rightarrow> nat \<Rightarrow> rune list \<Rightarrow> int \<times> int \<Rightarrow> nat option \<Rightarrow>
   image list \<Rightarrow> error option \<times> image list" where
  "DrawString L f fs colour dst [] p prev h = (None, h)"
| "DrawString L f fs colour dst (r # rs) p prev h =
     (let index = Index f r;
          p1 = (case prev of None \<Rightarrow> p
                | Some pr \<Rightarrow> (wrap32 (fst p + Kern f fs pr index), snd p))
      in case glyph f fs index p1 of
           Inl err \<Rightarrow> (Some err, h)
         | Inr (advanceWidth, gmask) \<Rightarrow>
             DrawString L f fs colour dst rs (wrap32 (fst p1 + advanceWidth), snd p1) (Some index)
               (h[dst := DrawMask_Over L (h ! dst) colour gmask]))"

section \<open>The program\<close>

datatype fatal =
    Names_missing | Image_missing | Font_missing | Output_missing
  | Invalid_color string
  | Reading_CSV error | Loading_image error | Decoding_image error
  | Reading_font error | Reading_font_type error
  | Drawing_name error | Creating_file error | Encoding_PNG error

datatype outcome = Returned | Fatal fatal

text \<open>
  Lines 116 to 144, the drawing of one name: a new image with the bounds of the
  original, the original drawn over it, and the name drawn into it at the anchor. The
  result is the error of \<^verbatim>\<open>DrawString\<close>, if any, and the heap.
\<close>

definition draw_certificate ::
  "lib \<Rightarrow> flags \<Rightarrow> rgba \<Rightarrow> font \<Rightarrow> nat \<Rightarrow> int \<Rightarrow> int \<Rightarrow> string \<Rightarrow> image list \<Rightarrow>
   error option \<times> image list" where
  "draw_certificate L F srcColor fontType originalImg imgWidth imgHeight name h =
     (let imgCopy = length h;
          h1 = h @ [RGBA (NewRGBA (Bounds_Dx (h ! originalImg)) (Bounds_Dy (h ! originalImg)))];
          h2 = h1[imgCopy := Draw_Over L (h1 ! imgCopy) (h1 ! originalImg)];
          textWidth = getTextWidth (float_conv L) name fontType (fontSize F);
          y = startY (float_conv L) imgHeight (heightPercent F);
          x = startX (float_conv L) imgWidth (widthPercent F) (centerText F) textWidth
      in DrawString L fontType (fontSize F) srcColor imgCopy (runes name) (Pt x y) None h2)"

text \<open>
  Lines 115 to 162, one pass of the loop: the drawing, then the file. \<^verbatim>\<open>os.Create\<close>
  leaves an empty file at the path, \<^verbatim>\<open>png.Encode\<close> fills it. Any error is fatal.
\<close>

definition certificate ::
  "lib \<Rightarrow> flags \<Rightarrow> rgba \<Rightarrow> font \<Rightarrow> nat \<Rightarrow> int \<Rightarrow> int \<Rightarrow> string \<Rightarrow> world \<Rightarrow> fatal option \<times> world" where
  "certificate L F srcColor fontType originalImg imgWidth imgHeight name w =
     (let imgCopy = length (heap w);
          drawn = draw_certificate L F srcColor fontType originalImg imgWidth imgHeight name (heap w);
          w3 = w\<lparr>heap := snd drawn\<rparr>
      in case fst drawn of
           Some err \<Rightarrow> (Some (Drawing_name err), w3)
         | None \<Rightarrow>
             (let filename = filepath_Join L (outputPath F) (sanitizeFilename name @ ''.png'') in
              case os_Create_error L filename of
                Some err \<Rightarrow> (Some (Creating_file err), w3)
              | None \<Rightarrow>
                  (let w4 = w3\<lparr>files := (files w3)(filename \<mapsto> [])\<rparr> in
                   case png_Encode L (heap w4 ! imgCopy) of
                     Inl err \<Rightarrow> (Some (Encoding_PNG err), w4)
                   | Inr bytes \<Rightarrow>
                       (None, print (Saved filename) (w4\<lparr>files := (files w4)(filename \<mapsto> bytes)\<rparr>)))))"

fun certificates ::
  "lib \<Rightarrow> flags \<Rightarrow> rgba \<Rightarrow> font \<Rightarrow> nat \<Rightarrow> int \<Rightarrow> int \<Rightarrow> string list \<Rightarrow> world \<Rightarrow> outcome \<times> world" where
  "certificates L F srcColor fontType originalImg imgWidth imgHeight [] w = (Returned, w)"
| "certificates L F srcColor fontType originalImg imgWidth imgHeight (name # names) w =
     (case certificate L F srcColor fontType originalImg imgWidth imgHeight name w of
        (Some err, w') \<Rightarrow> (Fatal err, w')
      | (None, w') \<Rightarrow> certificates L F srcColor fontType originalImg imgWidth imgHeight names w')"

text \<open>Lines 70 to 162: the names, the image and the font are loaded, the summary is
  printed and the loop runs.\<close>

definition generate :: "lib \<Rightarrow> flags \<Rightarrow> rgba \<Rightarrow> world \<Rightarrow> outcome \<times> world" where
  "generate L F srcColor w =
     (case readNamesFromCSV L w (csvFilePath F) of
        Inl err \<Rightarrow> (Fatal (Reading_CSV err), w)
      | Inr names \<Rightarrow>
          (case os_Open w (imagePath F) of
             Inl err \<Rightarrow> (Fatal (Loading_image err), w)
           | Inr file \<Rightarrow>
               (case image_Decode L file of
                  Inl err \<Rightarrow> (Fatal (Decoding_image err), w)
                | Inr img \<Rightarrow>
                    (let originalImg = length (heap w);
                         w2 = w\<lparr>heap := heap w @ [img]\<rparr>
                     in case os_Open w2 (fontPath F) of
                          Inl err \<Rightarrow> (Fatal (Reading_font err), w2)
                        | Inr fontBytes \<Rightarrow>
                            (case freetype_ParseFont L fontBytes of
                               Inl err \<Rightarrow> (Fatal (Reading_font_type err), w2)
                             | Inr fontType \<Rightarrow>
                                 certificates L F srcColor fontType originalImg
                                   (Bounds_Dx img) (Bounds_Dy img) names
                                   (print (Input_summary (length names) (Bounds_Dx img) (Bounds_Dy img))
                                      w2))))))"

text \<open>
  \<^verbatim>\<open>main\<close>, lines 35 to 68: the required flags, the four paths, then the color. The
  color is printed (line 65) before the check of line 66; for a name that is not in the
  table, the value printed is the zero color.
\<close>

definition main :: "lib \<Rightarrow> flags \<Rightarrow> world \<Rightarrow> outcome \<times> world" where
  "main L F w =
     (if csvFilePath F = [] \<or> imagePath F = [] \<or> fontPath F = [] then (Returned, print Usage w)
      else if \<not> os_Stat_exists w (csvFilePath F) then (Fatal Names_missing, w)
      else if \<not> os_Stat_exists w (imagePath F) then (Fatal Image_missing, w)
      else if \<not> os_Stat_exists w (fontPath F) then (Fatal Font_missing, w)
      else if \<not> os_Stat_exists w (outputPath F) then (Fatal Output_missing, w)
      else
        let name = ToLower (unicode_ToLower L) (srcColorName F);
            found = colornames_Map L name;
            w1 = print (Println_color (case found of None \<Rightarrow> (0, 0, 0, 0) | Some c \<Rightarrow> c)) w
        in case found of
             None \<Rightarrow> (Fatal (Invalid_color name), w1)
           | Some srcColor \<Rightarrow> generate L F srcColor w1)"

section \<open>An instance, to evaluate the model\<close>

text \<open>
  A font of 1000 units per em in which every glyph advances 800 units; \<^verbatim>\<open>HMetric\<close>
  scales an advance \<open>x\<close> to \<open>(x * scale + 500) div 1000\<close>. Its glyphs cover one pixel at
  the pen. The library instance knows two colors, reads three names in two records
  from every file that is not empty and decodes every image to an \<^verbatim>\<open>*image.RGBA\<close> of 4
  by 3 pixels.
\<close>

definition example_font :: font where
  "example_font =
     \<lparr>Index = (\<lambda>r. nat r),
      AdvanceWidth = (\<lambda>scale i. (scale * 800 + 500) div 1000),
      Kern = (\<lambda>fs i j. 0),
      glyph = (\<lambda>fs i p. Inr (10, (\<lambda>q. if q = (fst p div 64, snd p div 64) then 255 else 0)))\<rparr>"

definition example_lib :: lib where
  "example_lib =
     \<lparr>colornames_Map = [''black'' \<mapsto> (0, 0, 0, 255), ''red'' \<mapsto> (255, 0, 0, 255)],
      unicode_ToLower = (\<lambda>s. s),
      csv_ReadAll = (\<lambda>file. if file = [] then Inr [] else Inr [[''Ann Lee'', ''Bo''], [''Cy'']]),
      image_Decode = (\<lambda>file. Inr (RGBA \<lparr>Dx = 4, Dy = 3, Pix = (\<lambda>p. (1, 2, 3, 255))\<rparr>)),
      freetype_ParseFont = (\<lambda>file. Inr example_font),
      png_Encode = (\<lambda>img. Inr ''png''),
      filepath_Join = (\<lambda>dir file. dir @ ''/'' @ file),
      os_Create_error = (\<lambda>path. None),
      glyph_over = (\<lambda>colour ma d. if ma = 0 then d else colour),
      Draw_other = (\<lambda>dst src. dst),
      DrawMask_other = (\<lambda>dst colour gmask. dst),
      float_conv = amd64_indefinite\<rparr>"

definition example_world :: world where
  "example_world =
     \<lparr>files = [''names.csv'' \<mapsto> ''Ann Lee,Bo'', ''empty.csv'' \<mapsto> [], ''bg.png'' \<mapsto> ''image'',
               ''font.ttf'' \<mapsto> ''font''],
      dirs = {''out''}, heap = [], stdout = []\<rparr>"

definition example_flags :: flags where
  "example_flags =
     \<lparr>csvFilePath = ''names.csv'', imagePath = ''bg.png'', outputPath = ''out'',
      fontPath = ''font.ttf'', fontSize = Finite 75 0, srcColorName = ''Black'',
      widthPercent = Finite 1 (- 1), heightPercent = Finite 1 (- 1), centerText = False\<rparr>"

text \<open>An \<^verbatim>\<open>*image.RGBA\<close> of 4 by 3 pixels of one color, and the pixels of an image of one
  pixel that is half transparent.\<close>

definition example_image :: image where
  "example_image = RGBA \<lparr>Dx = 4, Dy = 3, Pix = (\<lambda>p. (1, 2, 3, 255))\<rparr>"

definition example_alpha_pixels :: raster where
  "example_alpha_pixels = \<lparr>Dx = 1, Dy = 1, Pix = (\<lambda>p. (200, 100, 50, 128))\<rparr>"

section \<open>The names are the fields of the records, in order\<close>

lemma append_records_concat: "append_records names records = names @ concat records"
  by (induction records arbitrary: names) simp_all

text \<open>
  Claim C8. When the file opens and the CSV reader returns records, \<^verbatim>\<open>readNamesFromCSV\<close>
  returns every field of every record as one list, in the order of the source; a record
  of several fields gives several names. When the reader returns no record (an empty
  source), the result is the empty list and no error.
\<close>

theorem readNamesFromCSV_flattens:
  assumes "files w filepath = Some file" and "csv_ReadAll L file = Inr records"
  shows "readNamesFromCSV L w filepath = Inr (concat records)
       \<and> (records = [] \<longrightarrow> readNamesFromCSV L w filepath = Inr [])"
  using assms by (simp add: readNamesFromCSV_def os_Open_def append_records_concat)

text \<open>The theorem at a source of two records, the first of two fields, and at an empty
  source.\<close>

theorem readNamesFromCSV_flattens_witness:
  "readNamesFromCSV example_lib example_world ''names.csv'' = Inr [''Ann Lee'', ''Bo'', ''Cy'']
   \<and> readNamesFromCSV example_lib example_world ''empty.csv'' = Inr []"
  using readNamesFromCSV_flattens [of example_world "''names.csv''" "''Ann Lee,Bo''" example_lib
      "[[''Ann Lee'', ''Bo''], [''Cy'']]"]
    readNamesFromCSV_flattens [of example_world "''empty.csv''" "[]" example_lib "[]"]
  by (simp add: example_world_def example_lib_def)

section \<open>The color name is looked up in lower case\<close>























section \<open>The measured width\<close>

lemma wrap64_wrap64_add: "wrap64 (wrap64 a + b) = wrap64 (a + b)"
proof -
  have "(((a + 2 ^ 63) mod 2 ^ 64 - 2 ^ 63) + b + 2 ^ 63) mod 2 ^ 64
      = ((a + 2 ^ 63) mod 2 ^ 64 + b) mod (2 ^ 64 :: int)"
    by (simp add: algebra_simps)
  also have "\<dots> = (a + 2 ^ 63 + b) mod 2 ^ 64"
    by (rule mod_add_left_eq)
  finally show ?thesis
    by (simp add: wrap64_def algebra_simps)
qed

lemma getTextWidth_loop_sum:
  "getTextWidth_loop f scale rs (wrap64 width)
     = wrap64 (width + sum_list (map (\<lambda>ch. AdvanceWidth f scale (Index f ch)) rs))"
proof (induction rs arbitrary: width)
  case Nil
  show ?case by simp
next
  case (Cons ch rs)
  have "getTextWidth_loop f scale (ch # rs) (wrap64 width)
      = getTextWidth_loop f scale rs (wrap64 (width + AdvanceWidth f scale (Index f ch)))"
    by (simp add: wrap64_wrap64_add)
  also have "\<dots> = wrap64 (width + AdvanceWidth f scale (Index f ch)
      + sum_list (map (\<lambda>ch. AdvanceWidth f scale (Index f ch)) rs))"
    by (rule Cons.IH)
  finally show ?case
    by (simp add: add.assoc)
qed

lemma getTextWidth_sum:
  "getTextWidth impl text f sz
     = wrap64 (sum_list (map (\<lambda>ch. AdvanceWidth f (int32_of_float64 impl sz) (Index f ch)) (runes text)))"
proof -
  have "wrap64 0 = 0"
    by (simp add: wrap64_def)
  then show ?thesis
    using getTextWidth_loop_sum [of f "int32_of_float64 impl sz" "runes text" 0]
    by (simp add: getTextWidth_def)
qed

lemma runes_Nil: "runes [] = []"
  by (subst runes.simps) simp

lemma runes_ascii: "byte c < 0x80 \<Longrightarrow> runes (c # s) = byte c # runes s"
  by (subst runes.simps) simp

lemma int32_of_13_75: "int32_of_float64 impl (Finite 55 (- 2)) = 13"
  by (simp add: int32_of_float64_def)

lemma int32_of_13: "int32_of_float64 impl (Finite 13 0) = 13"
  by (simp add: int32_of_float64_def)

text \<open>
  Claim C5, on the code. \<^verbatim>\<open>getTextWidth\<close> is the sum, over the code points of the text,
  of the advance the font reports at the scale \<^verbatim>\<open>fixed.Int26_6(size)\<close>, each advance read as
  a number of pixels. The conversion keeps the integer part of the size only: at
  \<open>13.75\<close> points the width is the width at \<open>13\<close> points, for every font and text. For
  the example font and the text \<^verbatim>\<open>M\<close> it is 10, while the advance of the glyph at
  \<open>13.75\<close> points and 72 DPI, scale \<open>13.75 * 64 = 880\<close> in 26.6 fixed point, is
  \<open>704 = 11 * 64\<close>, that is 11 pixels.
\<close>

theorem getTextWidth_drops_size_fraction:
  "getTextWidth impl text f sz
     = wrap64 (sum_list (map (\<lambda>ch. AdvanceWidth f (int32_of_float64 impl sz) (Index f ch)) (runes text)))
   \<and> getTextWidth impl text f (Finite 55 (- 2)) = getTextWidth impl text f (Finite 13 0)
   \<and> getTextWidth impl ''M'' example_font (Finite 55 (- 2)) = 10
   \<and> AdvanceWidth example_font 880 (Index example_font (byte CHR ''M'')) = 11 * 64"
proof (intro conjI)
  show "getTextWidth impl text f sz
     = wrap64 (sum_list (map (\<lambda>ch. AdvanceWidth f (int32_of_float64 impl sz) (Index f ch)) (runes text)))"
    by (rule getTextWidth_sum)
  show "getTextWidth impl text f (Finite 55 (- 2)) = getTextWidth impl text f (Finite 13 0)"
    by (simp add: getTextWidth_def int32_of_13_75 int32_of_13)
  show "getTextWidth impl ''M'' example_font (Finite 55 (- 2)) = 10"
    by (simp add: getTextWidth_def int32_of_13_75 runes_ascii runes_Nil byte_def example_font_def
        wrap64_def)
  show "AdvanceWidth example_font 880 (Index example_font (byte CHR ''M'')) = 11 * 64"
    by (simp add: example_font_def)
qed

section \<open>The copy of the background\<close>

text \<open>
  What the copy must hold, in the words of \<^verbatim>\<open>image/color\<close>: the color of every pixel of
  the background, converted to a \<^verbatim>\<open>color.RGBA\<close> by \<^verbatim>\<open>color.RGBAModel\<close>. The conversion
  keeps the high byte of each of the four values of \<^verbatim>\<open>RGBA()\<close>. A \<^verbatim>\<open>color.RGBA\<close> is
  returned as it is. For a \<^verbatim>\<open>color.NRGBA\<close> the method \<^verbatim>\<open>RGBA()\<close> premultiplies: a channel
  \<open>c\<close> with alpha \<open>a\<close> gives \<^verbatim>\<open>c * 0x101 * a / 0xff\<close>, and the alpha gives \<^verbatim>\<open>a * 0x101\<close>.
\<close>

definition premultiply_channel :: "8 word \<Rightarrow> 8 word \<Rightarrow> 8 word" where
  "premultiply_channel c a = of_nat (unat c * 0x101 * unat a div 0xFF div 256)"

fun RGBAModel_NRGBA :: "rgba \<Rightarrow> rgba" where
  "RGBAModel_NRGBA (r, g, b, a) =
     (premultiply_channel r a, premultiply_channel g a, premultiply_channel b a, a)"

fun RGBAModel_RGBA64 :: "rgba64 \<Rightarrow> rgba" where
  "RGBAModel_RGBA64 (r, g, b, a) =
     (of_nat (unat r div 256), of_nat (unat g div 256), of_nat (unat b div 256),
      of_nat (unat a div 256))"

fun RGBA_pixel :: "image \<Rightarrow> int \<times> int \<Rightarrow> rgba" where
  "RGBA_pixel (RGBA src) p = Pix src p"
| "RGBA_pixel (NRGBA src) p = RGBAModel_NRGBA (Pix src p)"
| "RGBA_pixel (Other src) p = RGBAModel_RGBA64 (Pix src p)"

text \<open>The copy of an image as an \<^verbatim>\<open>*image.RGBA\<close>: the same bounds, and within them the
  converted color of every pixel.\<close>

definition RGBA_copy :: "image \<Rightarrow> raster" where
  "RGBA_copy img =
     \<lparr>Dx = Bounds_Dx img, Dy = Bounds_Dy img,
      Pix = (\<lambda>p. if 0 \<le> fst p \<and> fst p < Bounds_Dx img \<and> 0 \<le> snd p \<and> snd p < Bounds_Dy img
                 then RGBA_pixel img p else (0, 0, 0, 0))\<rparr>"

text \<open>
  \<^verbatim>\<open>color.NRGBAModel\<close> on a \<^verbatim>\<open>color.RGBA\<close>, the color that the PNG encoder writes for a
  pixel of an \<^verbatim>\<open>*image.RGBA\<close> that is not opaque: an opaque color is kept, a transparent
  one is zero, and any other is divided by its alpha, \<^verbatim>\<open>(r * 0xffff) / a\<close> on the 16-bit
  values, of which the high byte is kept.
\<close>

fun NRGBAModel_RGBA :: "rgba \<Rightarrow> rgba" where
  "NRGBAModel_RGBA (r, g, b, a) =
     (if a = 0xFF then (r, g, b, 0xFF)
      else if a = 0 then (0, 0, 0, 0)
      else (of_nat (unat r * 0x101 * 0xFFFF div (unat a * 0x101) div 256),
            of_nat (unat g * 0x101 * 0xFFFF div (unat a * 0x101) div 256),
            of_nat (unat b * 0x101 * 0xFFFF div (unat a * 0x101) div 256),
            a))"

text \<open>Drawn over a transparent pixel, a source pixel is converted and nothing else.\<close>

lemma over_channel_zero: "over_channel 0 s sa = s"
proof -
  have "unat s < 256"
    using unsigned_less [of s, where ?'a = nat] by simp
  then have "(unat s * 257) div 256 = unat s"
    by simp
  then show ?thesis
    by (simp add: over_channel_def)
qed

lemma drawCopyOver_pixel_zero: "drawCopyOver_pixel (0, 0, 0, 0) s = s"
  by (cases s) (simp add: over_channel_zero)

lemma nrgba_over_channel_zero: "nrgba_over_channel 0 s sa = premultiply_channel s sa"
  by (simp add: nrgba_over_channel_def premultiply_channel_def mult_ac)

lemma drawNRGBAOver_pixel_zero: "drawNRGBAOver_pixel (0, 0, 0, 0) s = RGBAModel_NRGBA s"
  by (cases s) (simp add: over_channel_zero nrgba_over_channel_zero)

lemma rgba64_over_channel_zero: "rgba64_over_channel 0 s sa = of_nat (unat s div 256)"
proof -
  have "unat s < 65536"
    using unsigned_less [of s, where ?'a = nat] by simp
  then have "unat s * 65535 < 4294967296"
    by simp
  then have "unat s * 65535 mod 4294967296 div 65535 = unat s"
    by simp
  then show ?thesis
    by (simp add: rgba64_over_channel_def)
qed

lemma drawRGBA_pixel_zero: "drawRGBA_pixel (0, 0, 0, 0) s = RGBAModel_RGBA64 s"
  by (cases s) (simp add: rgba64_over_channel_zero)

lemma draw_pixels_NewRGBA:
  assumes "\<And>s. over (0, 0, 0, 0) s = conv s"
  shows "draw_pixels over (NewRGBA (Dx src) (Dy src)) src
     = \<lparr>Dx = Dx src, Dy = Dy src,
        Pix = (\<lambda>p. if 0 \<le> fst p \<and> fst p < Dx src \<and> 0 \<le> snd p \<and> snd p < Dy src
                   then conv (Pix src p) else (0, 0, 0, 0))\<rparr>"
  by (auto simp add: draw_pixels_def NewRGBA_def in_bounds_def assms fun_eq_iff)

lemma Draw_Over_NewRGBA:
  "Draw_Over L (RGBA (NewRGBA (Bounds_Dx bg) (Bounds_Dy bg))) bg = RGBA (RGBA_copy bg)"
proof (cases bg)
  case (RGBA src)
  then show ?thesis
    using draw_pixels_NewRGBA [of drawCopyOver_pixel "\<lambda>s. s" src]
    by (auto simp add: RGBA_copy_def drawCopyOver_pixel_zero fun_eq_iff)
next
  case (NRGBA src)
  then show ?thesis
    using draw_pixels_NewRGBA [of drawNRGBAOver_pixel RGBAModel_NRGBA src]
    by (auto simp add: RGBA_copy_def drawNRGBAOver_pixel_zero fun_eq_iff)
next
  case (Other src)
  then show ?thesis
    using draw_pixels_NewRGBA [of drawRGBA_pixel RGBAModel_RGBA64 src]
    by (auto simp add: RGBA_copy_def drawRGBA_pixel_zero fun_eq_iff)
qed

lemma RGBA_copy_bounds:
  "Dx (RGBA_copy bg) = Bounds_Dx bg"
  "Dy (RGBA_copy bg) = Bounds_Dy bg"
  by (simp_all add: RGBA_copy_def)

lemma RGBA_copy_RGBA:
  "in_bounds src p \<Longrightarrow> Pix (RGBA_copy (RGBA src)) p = Pix src p"
  by (simp add: RGBA_copy_def in_bounds_def)

lemma RGBA_copy_NRGBA:
  "in_bounds src p \<Longrightarrow> Pix (RGBA_copy (NRGBA src)) p = RGBAModel_NRGBA (Pix src p)"
  by (simp add: RGBA_copy_def in_bounds_def)

lemma RGBA_copy_Other:
  "in_bounds src p \<Longrightarrow> Pix (RGBA_copy (Other src)) p = RGBAModel_RGBA64 (Pix src p)"
  by (simp add: RGBA_copy_def in_bounds_def)

text \<open>An opaque color is its own premultiplied form.\<close>

lemma premultiply_channel_opaque: "premultiply_channel c 255 = c"
proof -
  have "unat c < 256"
    using unsigned_less [of c, where ?'a = nat] by simp
  then have "unat c * 257 * 255 div 255 div 256 = unat c"
    by simp
  then show ?thesis
    by (simp add: premultiply_channel_def)
qed

lemma RGBAModel_NRGBA_opaque: "RGBAModel_NRGBA (r, g, b, 255) = (r, g, b, 255)"
  by (simp add: premultiply_channel_opaque)

text \<open>Drawing a string writes one cell of the heap.\<close>

lemma DrawString_length:
  "length (snd (DrawString L f fs colour dst rs p prev h)) = length h"
  by (induction rs arbitrary: p prev h) (simp_all add: Let_def split: sum.splits prod.splits)

lemma DrawString_frame:
  "a \<noteq> dst \<Longrightarrow> snd (DrawString L f fs colour dst rs p prev h) ! a = h ! a"
  by (induction rs arbitrary: p prev h) (simp_all add: Let_def split: sum.splits prod.splits)

text \<open>An \<^verbatim>\<open>*image.RGBA\<close> stays one, with its bounds.\<close>

lemma DrawString_bounds:
  "dst < length h \<Longrightarrow> h ! dst = RGBA r \<Longrightarrow>
   \<exists>r'. snd (DrawString L f fs colour dst rs p prev h) ! dst = RGBA r' \<and> Dx r' = Dx r \<and> Dy r' = Dy r"
proof (induction rs arbitrary: p prev h r)
  case Nil
  then show ?case by simp
next
  case (Cons c rs)
  show ?case
  proof (cases "glyph f fs (Index f c)
      (case prev of None \<Rightarrow> p | Some pr \<Rightarrow> (wrap32 (fst p + Kern f fs pr (Index f c)), snd p))")
    case (Inl err)
    then show ?thesis
      using Cons.prems by (simp add: Let_def)
  next
    case (Inr am)
    obtain advanceWidth gmask where am: "am = (advanceWidth, gmask)"
      by (cases am)
    let ?r1 = "r\<lparr>Pix := (\<lambda>q. if in_bounds r q then glyph_over L colour (gmask q) (Pix r q)
                             else Pix r q)\<rparr>"
    let ?h1 = "h[dst := DrawMask_Over L (h ! dst) colour gmask]"
    have len: "dst < length ?h1" and cell: "?h1 ! dst = RGBA ?r1"
      using Cons.prems by simp_all
    from Cons.IH [OF len cell] show ?thesis
      using Inr am by (simp add: Let_def)
  qed
qed

text \<open>What it writes there depends on that cell only.\<close>

lemma DrawString_local:
  assumes "dst < length h"
  shows "DrawString L f fs colour dst rs p prev h =
     (fst (DrawString L f fs colour 0 rs p prev [h ! dst]),
      h[dst := snd (DrawString L f fs colour 0 rs p prev [h ! dst]) ! 0])"
  using assms
proof (induction rs arbitrary: p prev h)
  case Nil
  then show ?case by simp
next
  case (Cons r rs)
  show ?case
  proof (cases "glyph f fs (Index f r)
      (case prev of None \<Rightarrow> p | Some pr \<Rightarrow> (wrap32 (fst p + Kern f fs pr (Index f r)), snd p))")
    case (Inl err)
    then show ?thesis
      using Cons.prems by (simp add: Let_def)
  next
    case (Inr am)
    obtain advanceWidth gmask where am: "am = (advanceWidth, gmask)"
      by (cases am)
    let ?D = "DrawMask_Over L (h ! dst) colour gmask"
    have len: "dst < length (h[dst := ?D])"
      using Cons.prems by simp
    show ?thesis
      using Cons.prems Inr am Cons.IH [OF len]
      by (simp add: Let_def)
  qed
qed

section \<open>What one pass of the loop draws\<close>

text \<open>
  Lines 120 to 144 on an image that is alone in memory: the image after the name has
  been drawn into it at the anchor. It depends on the libraries, the flags, the
  color, the font, the dimensions, the name and that image, and on nothing else.
\<close>

definition drawn_on :: "lib \<Rightarrow> flags \<Rightarrow> rgba \<Rightarrow> font \<Rightarrow> int \<Rightarrow> int \<Rightarrow> string \<Rightarrow> image \<Rightarrow> image" where
  "drawn_on L F srcColor fontType imgWidth imgHeight name img =
     snd (DrawString L fontType (fontSize F) srcColor 0 (runes name)
            (Pt (startX (float_conv L) imgWidth (widthPercent F) (centerText F)
                   (getTextWidth (float_conv L) name fontType (fontSize F)))
                (startY (float_conv L) imgHeight (heightPercent F)))
            None [img]) ! 0"

lemma draw_certificate_DrawString:
  assumes "originalImg < length h"
  shows "draw_certificate L F srcColor fontType originalImg imgWidth imgHeight name h =
     DrawString L fontType (fontSize F) srcColor (length h) (runes name)
       (Pt (startX (float_conv L) imgWidth (widthPercent F) (centerText F)
              (getTextWidth (float_conv L) name fontType (fontSize F)))
           (startY (float_conv L) imgHeight (heightPercent F)))
       None
       (h @ [RGBA (RGBA_copy (h ! originalImg))])"
  using assms by (simp add: draw_certificate_def Let_def nth_append Draw_Over_NewRGBA)

text \<open>In any heap, one pass of the loop leaves the images that exist as they are and
  adds, at the end, the copy of the background with the name drawn on it.\<close>

lemma draw_certificate_drawn_on:
  assumes "originalImg < length h"
  shows "snd (draw_certificate L F srcColor fontType originalImg imgWidth imgHeight name h)
           = h @ [drawn_on L F srcColor fontType imgWidth imgHeight name
                    (RGBA (RGBA_copy (h ! originalImg)))]"
  using assms DrawString_local [of "length h" "h @ [RGBA (RGBA_copy (h ! originalImg))]" L fontType
      "fontSize F" srcColor "runes name" _ None]
  by (simp add: draw_certificate_DrawString drawn_on_def)

lemma drawn_on_bounds:
  "\<exists>r. drawn_on L F srcColor fontType imgWidth imgHeight name (RGBA (RGBA_copy bg)) = RGBA r
       \<and> Dx r = Bounds_Dx bg \<and> Dy r = Bounds_Dy bg"
  using DrawString_bounds [of 0 "[RGBA (RGBA_copy bg)]" "RGBA_copy bg" L fontType "fontSize F"
      srcColor "runes name" _ None]
  by (simp add: drawn_on_def RGBA_copy_bounds)

lemma drawn_on_empty:
  "drawn_on L F srcColor fontType imgWidth imgHeight [] img = img"
  by (simp add: drawn_on_def runes_Nil)

lemma certificate_heap:
  assumes "originalImg < length (heap w)"
  shows "heap (snd (certificate L F srcColor fontType originalImg imgWidth imgHeight name w))
     = heap w @ [drawn_on L F srcColor fontType imgWidth imgHeight name
                   (RGBA (RGBA_copy (heap w ! originalImg)))]"
  using draw_certificate_drawn_on [OF assms, of L F srcColor fontType imgWidth imgHeight name]
  by (simp add: certificate_def Let_def print_def split: option.splits sum.splits)

lemma certificate_files:
  assumes "originalImg < length (heap w)"
  shows "files (snd (certificate L F srcColor fontType originalImg imgWidth imgHeight name w)) = files w
     \<or> (\<exists>bytes. files (snd (certificate L F srcColor fontType originalImg imgWidth imgHeight name w))
            = (files w)(filepath_Join L (outputPath F) (sanitizeFilename name @ ''.png'') \<mapsto> bytes)
          \<and> (bytes = [] \<or> png_Encode L
                (drawn_on L F srcColor fontType imgWidth imgHeight name
                   (RGBA (RGBA_copy (heap w ! originalImg)))) = Inr bytes))"
  using draw_certificate_drawn_on [OF assms, of L F srcColor fontType imgWidth imgHeight name]
  by (auto simp add: certificate_def Let_def print_def split: option.splits sum.splits)

section \<open>The whole batch\<close>

lemma certificates_heap:
  assumes "originalImg < length (heap w)"
  shows "\<exists>k\<le>length names.
      heap (snd (certificates L F srcColor fontType originalImg imgWidth imgHeight names w))
        = heap w @ map (\<lambda>name. drawn_on L F srcColor fontType imgWidth imgHeight name
                                 (RGBA (RGBA_copy (heap w ! originalImg)))) (take k names)
      \<and> (fst (certificates L F srcColor fontType originalImg imgWidth imgHeight names w) = Returned
           \<longrightarrow> k = length names)"
  using assms
proof (induction names arbitrary: w)
  case Nil
  then show ?case by simp
next
  case (Cons name names)
  let ?bg = "heap w ! originalImg"
  let ?r = "\<lambda>name. drawn_on L F srcColor fontType imgWidth imgHeight name (RGBA (RGBA_copy ?bg))"
  obtain e w' where c: "certificate L F srcColor fontType originalImg imgWidth imgHeight name w = (e, w')"
    by (cases "certificate L F srcColor fontType originalImg imgWidth imgHeight name w")
  have h: "heap w' = heap w @ [?r name]"
    using certificate_heap [OF Cons.prems, of L F srcColor fontType imgWidth imgHeight name] c by simp
  show ?case
  proof (cases e)
    case (Some err)
    then have "heap (snd (certificates L F srcColor fontType originalImg imgWidth imgHeight (name # names) w))
        = heap w @ map ?r (take 1 (name # names))"
      and "fst (certificates L F srcColor fontType originalImg imgWidth imgHeight (name # names) w) \<noteq> Returned"
      using c h by simp_all
    then show ?thesis
      by (intro exI [of _ 1]) simp
  next
    case None
    have len: "originalImg < length (heap w')" and bg: "heap w' ! originalImg = ?bg"
      using Cons.prems h by (simp_all add: nth_append)
    from Cons.IH [OF len] obtain k where k: "k \<le> length names"
      and hk: "heap (snd (certificates L F srcColor fontType originalImg imgWidth imgHeight names w'))
          = heap w' @ map ?r (take k names)"
      and rk: "fst (certificates L F srcColor fontType originalImg imgWidth imgHeight names w') = Returned
          \<longrightarrow> k = length names"
      unfolding bg by blast
    show ?thesis
      using c None k hk rk h by (intro exI [of _ "Suc k"]) simp
  qed
qed

lemma certificates_files:
  assumes "originalImg < length (heap w)"
    and "files (snd (certificates L F srcColor fontType originalImg imgWidth imgHeight names w)) p = Some bytes"
  shows "files w p = Some bytes
     \<or> (\<exists>name\<in>set names. p = filepath_Join L (outputPath F) (sanitizeFilename name @ ''.png'')
          \<and> (bytes = [] \<or> png_Encode L
                (drawn_on L F srcColor fontType imgWidth imgHeight name
                   (RGBA (RGBA_copy (heap w ! originalImg)))) = Inr bytes))"
  using assms
proof (induction names arbitrary: w)
  case Nil
  then show ?case by simp
next
  case (Cons name names)
  let ?bg = "heap w ! originalImg"
  let ?r = "\<lambda>name. drawn_on L F srcColor fontType imgWidth imgHeight name (RGBA (RGBA_copy ?bg))"
  let ?fn = "\<lambda>name. filepath_Join L (outputPath F) (sanitizeFilename name @ ''.png'')"
  let ?ok = "\<lambda>name bytes. bytes = [] \<or> png_Encode L (?r name) = Inr bytes"
  obtain e w' where c: "certificate L F srcColor fontType originalImg imgWidth imgHeight name w = (e, w')"
    by (cases "certificate L F srcColor fontType originalImg imgWidth imgHeight name w")
  have h: "heap w' = heap w @ [?r name]"
    using certificate_heap [OF Cons.prems(1), of L F srcColor fontType imgWidth imgHeight name] c by simp
  have len: "originalImg < length (heap w')" and bg: "heap w' ! originalImg = ?bg"
    using Cons.prems(1) h by (simp_all add: nth_append)
  have f: "files w' = files w \<or> (\<exists>b. files w' = (files w)(?fn name \<mapsto> b) \<and> ?ok name b)"
    using certificate_files [OF Cons.prems(1), of L F srcColor fontType imgWidth imgHeight name] c by simp
  have step: "files w p = Some bytes \<or> (p = ?fn name \<and> ?ok name bytes)" if "files w' p = Some bytes"
    using f that by (auto split: if_splits)
  show ?case
  proof (cases e)
    case (Some err)
    then have "files w' p = Some bytes"
      using Cons.prems(2) c by simp
    then show ?thesis
      using step by auto
  next
    case None
    then have "files (snd (certificates L F srcColor fontType originalImg imgWidth imgHeight names w')) p
        = Some bytes"
      using Cons.prems(2) c by simp
    from Cons.IH [OF len this] show ?thesis
      unfolding bg using step by auto
  qed
qed

text \<open>
  Claim C7. Over any list of names, started in a heap that holds the background at
  \<open>originalImg\<close>, the loop changes no image that existed before, the background in
  particular. The images it adds, one for every name it processed (all of them if it
  returns), are new cells, and each is that one name drawn on a copy of the background
  made for it: an \<^verbatim>\<open>*image.RGBA\<close> with the bounds of the background and, within them, the
  color of the background at every point (the very bytes when the background is an
  \<^verbatim>\<open>*image.RGBA\<close>). So no image holds the drawing of another name. Each has the dimensions
  of the background, and a file that was written holds the encoding of the image of one
  of the names (or nothing, if the encoder failed on it).
\<close>

theorem batch_keeps_background:
  assumes "originalImg < length (heap w)"
  shows "let bg = heap w ! originalImg;
             run = certificates L F srcColor fontType originalImg imgWidth imgHeight names w;
             w' = snd run;
             drawn = (\<lambda>name. drawn_on L F srcColor fontType imgWidth imgHeight name
                                (RGBA (RGBA_copy bg)))
         in (\<forall>a<length (heap w). heap w' ! a = heap w ! a)
            \<and> heap w' ! originalImg = bg
            \<and> (\<exists>k\<le>length names.
                  heap w' = heap w @ map drawn (take k names)
                  \<and> (fst run = Returned \<longrightarrow> k = length names))
            \<and> Dx (RGBA_copy bg) = Bounds_Dx bg \<and> Dy (RGBA_copy bg) = Bounds_Dy bg
            \<and> (\<forall>p. in_bounds (RGBA_copy bg) p \<longrightarrow> Pix (RGBA_copy bg) p = RGBA_pixel bg p)
            \<and> (\<forall>src p. bg = RGBA src \<and> in_bounds src p \<longrightarrow> Pix (RGBA_copy bg) p = Pix src p)
            \<and> (\<forall>img\<in>set (drop (length (heap w)) (heap w')).
                  \<exists>r. img = RGBA r \<and> Dx r = Bounds_Dx bg \<and> Dy r = Bounds_Dy bg)
            \<and> (\<forall>p bytes. files w' p = Some bytes \<longrightarrow>
                  files w p = Some bytes
                  \<or> (\<exists>name\<in>set names.
                        p = filepath_Join L (outputPath F) (sanitizeFilename name @ ''.png'')
                        \<and> (bytes = [] \<or> png_Encode L (drawn name) = Inr bytes)))"
proof -
  let ?bg = "heap w ! originalImg"
  let ?run = "certificates L F srcColor fontType originalImg imgWidth imgHeight names w"
  let ?r = "\<lambda>name. drawn_on L F srcColor fontType imgWidth imgHeight name (RGBA (RGBA_copy ?bg))"
  from certificates_heap [OF assms, where names = names and L = L and F = F
      and srcColor = srcColor and fontType = fontType and imgWidth = imgWidth and imgHeight = imgHeight]
  obtain k where k: "k \<le> length names"
    and hk: "heap (snd ?run) = heap w @ map ?r (take k names)"
    and rk: "fst ?run = Returned \<longrightarrow> k = length names"
    by blast
  have old: "\<forall>a<length (heap w). heap (snd ?run) ! a = heap w ! a"
    by (simp add: hk nth_append)
  have copy: "\<forall>p. in_bounds (RGBA_copy ?bg) p \<longrightarrow> Pix (RGBA_copy ?bg) p = RGBA_pixel ?bg p"
    by (simp add: RGBA_copy_def in_bounds_def)
  have same: "\<forall>src p. ?bg = RGBA src \<and> in_bounds src p \<longrightarrow> Pix (RGBA_copy ?bg) p = Pix src p"
    by (simp add: RGBA_copy_RGBA)
  have new: "\<forall>img\<in>set (drop (length (heap w)) (heap (snd ?run))).
      \<exists>r. img = RGBA r \<and> Dx r = Bounds_Dx ?bg \<and> Dy r = Bounds_Dy ?bg"
    using drawn_on_bounds [of L F srcColor fontType imgWidth imgHeight _ ?bg]
    by (auto simp add: hk)
  have fs: "\<forall>p bytes. files (snd ?run) p = Some bytes \<longrightarrow>
      files w p = Some bytes
      \<or> (\<exists>name\<in>set names. p = filepath_Join L (outputPath F) (sanitizeFilename name @ ''.png'')
            \<and> (bytes = [] \<or> png_Encode L (?r name) = Inr bytes))"
    using certificates_files [OF assms] by blast
  have ex: "\<exists>k\<le>length names. heap (snd ?run) = heap w @ map ?r (take k names)
      \<and> (fst ?run = Returned \<longrightarrow> k = length names)"
    using k hk rk by blast
  show ?thesis
    unfolding Let_def using assms old new fs ex copy same
    by (simp add: RGBA_copy_bounds)
qed

text \<open>
  The example: the anchor is the point \<open>(2, 2)\<close>, every glyph of the example font covers
  the pixel at the pen, no glyph fails, and the run returns.
\<close>

lemma example_startX:
  "startX (float_conv example_lib) 4 (widthPercent example_flags) (centerText example_flags) t = 2"
proof -
  have "startX (float_conv example_lib) 4 (Finite 1 (- 1)) False 0
      = trunc_toward_zero (of_int 4 * float_val 1 (- 1))"
    by (rule startX_exact_aux) simp_all
  then show ?thesis
    by (simp add: example_flags_def startX_def float_val_def trunc_toward_zero_def power_int_minus
        floor_rat_numeral)
qed

lemma example_startY:
  "startY (float_conv example_lib) 3 (heightPercent example_flags) = 2"
proof -
  have "startY (float_conv example_lib) 3 (Finite 1 (- 1))
      = 3 - trunc_toward_zero (of_int 3 * float_val 1 (- 1))"
    by (rule startY_exact_aux) simp_all
  then show ?thesis
    by (simp add: example_flags_def float_val_def trunc_toward_zero_def power_int_minus
        floor_rat_numeral)
qed

lemma Pt_2_2: "Pt 2 2 = (128, 128)"
  by (simp add: Pt_def wrap32_def)

lemma drawn_on_Bo:
  "RGBA_pixel (drawn_on example_lib example_flags (0, 0, 0, 255) example_font 4 3 ''Bo''
      (RGBA (RGBA_copy example_image))) (0, 0) = (1, 2, 3, 255)"
  "RGBA_pixel (drawn_on example_lib example_flags (0, 0, 0, 255) example_font 4 3 ''Bo''
      (RGBA (RGBA_copy example_image))) (2, 2) = (0, 0, 0, 255)"
  by (simp_all add: drawn_on_def example_startX example_startY Pt_2_2 runes_ascii runes_Nil byte_def
      example_font_def Let_def wrap32_def RGBA_copy_def example_image_def in_bounds_def)
     (simp_all add: example_lib_def)

lemma drawn_on_Cy:
  "RGBA_pixel (drawn_on example_lib example_flags (0, 0, 0, 255) example_font 4 3 ''Cy''
      (RGBA (RGBA_copy example_image))) (0, 0) = (1, 2, 3, 255)"
  by (simp add: drawn_on_def example_startX example_startY Pt_2_2 runes_ascii runes_Nil byte_def
      example_font_def Let_def wrap32_def RGBA_copy_def example_image_def in_bounds_def)
     (simp add: example_lib_def)

lemma DrawString_example_font:
  "fst (DrawString L example_font fs colour dst rs p prev h) = None"
  by (induction rs arbitrary: p prev h) (simp_all add: Let_def example_font_def)

lemma example_run_returns:
  "fst (certificates example_lib example_flags (0, 0, 0, 255) example_font 0 4 3 names w) = Returned"
proof (induction names arbitrary: w)
  case Nil
  then show ?case by simp
next
  case (Cons name names)
  have "fst (draw_certificate example_lib example_flags (0, 0, 0, 255) example_font 0 4 3 name (heap w))
      = None"
    by (simp add: draw_certificate_def Let_def DrawString_example_font)
  then obtain w' where "certificate example_lib example_flags (0, 0, 0, 255) example_font 0 4 3 name w
      = (None, w')"
    by (simp add: certificate_def Let_def example_lib_def)
  then show ?case
    using Cons.IH [of w'] by simp
qed

text \<open>
  The theorem at the example image and two names. After the run the background is the
  same; each of the two new images has the color of the background at \<open>(0, 0)\<close>, and the
  first has the color of the text at the anchor.
\<close>

theorem batch_keeps_background_witness:
  "let w' = snd (certificates example_lib example_flags (0, 0, 0, 255) example_font 0 4 3
                   [''Bo'', ''Cy''] (example_world\<lparr>heap := [example_image]\<rparr>))
   in length (heap w') = 3
      \<and> heap w' ! 0 = example_image
      \<and> RGBA_pixel (heap w' ! 1) (0, 0) = (1, 2, 3, 255)
      \<and> RGBA_pixel (heap w' ! 1) (2, 2) = (0, 0, 0, 255)
      \<and> RGBA_pixel (heap w' ! 2) (0, 0) = (1, 2, 3, 255)"
proof -
  let ?w = "example_world\<lparr>heap := [example_image]\<rparr>"
  let ?run = "certificates example_lib example_flags (0, 0, 0, 255) example_font 0 4 3
                [''Bo'', ''Cy''] ?w"
  have len: "(0::nat) < length (heap ?w)"
    by simp
  have ret: "fst ?run = Returned"
    by (rule example_run_returns)
  from batch_keeps_background [OF len, of example_lib example_flags "(0, 0, 0, 255)" example_font 4 3
      "[''Bo'', ''Cy'']"] ret
  have "heap (snd ?run) = [example_image,
      drawn_on example_lib example_flags (0, 0, 0, 255) example_font 4 3 ''Bo''
        (RGBA (RGBA_copy example_image)),
      drawn_on example_lib example_flags (0, 0, 0, 255) example_font 4 3 ''Cy''
        (RGBA (RGBA_copy example_image))]"
    by (auto simp add: Let_def)
  then show ?thesis
    by (simp add: Let_def drawn_on_Bo drawn_on_Cy)
qed

section \<open>The empty name\<close>

lemma draw_certificate_empty:
  "originalImg < length h \<Longrightarrow>
   fst (draw_certificate L F srcColor fontType originalImg imgWidth imgHeight [] h) = None"
  by (simp add: draw_certificate_DrawString runes_Nil)

lemma certificate_empty_file:
  assumes "originalImg < length (heap w)"
    and "os_Create_error L (filepath_Join L (outputPath F) (sanitizeFilename [] @ ''.png'')) = None"
    and "png_Encode L (RGBA (RGBA_copy (heap w ! originalImg))) = Inr bytes"
  shows "files (snd (certificate L F srcColor fontType originalImg imgWidth imgHeight [] w))
           (filepath_Join L (outputPath F) (sanitizeFilename [] @ ''.png'')) = Some bytes"
  using assms draw_certificate_drawn_on [OF assms(1), of L F srcColor fontType imgWidth imgHeight "[]"]
    draw_certificate_empty [OF assms(1), of L F srcColor fontType imgWidth imgHeight]
  by (simp add: certificate_def Let_def print_def drawn_on_empty)

text \<open>
  Claim C6, amended. For the empty name, the pass of the loop draws no glyph
  (\<^verbatim>\<open>DrawString\<close> returns no error and touches no pixel): the image it produces, the new
  cell at the end of the heap, is the copy that \<^verbatim>\<open>draw.Draw\<close> made of the background,
  and the file written for it holds the encoding of that copy. The copy is an
  \<^verbatim>\<open>*image.RGBA\<close> with the bounds of the background; its pixel at a point within the
  bounds is the color of the background there converted to a premultiplied
  \<^verbatim>\<open>color.RGBA\<close>. It is the pixel of the background itself when the background is an
  \<^verbatim>\<open>*image.RGBA\<close>, and where a pixel of an \<^verbatim>\<open>*image.NRGBA\<close> background is opaque; a pixel
  of an \<^verbatim>\<open>*image.NRGBA\<close> background that is not opaque has its color channels multiplied
  by its alpha.
\<close>

theorem empty_name_copies_background:
  assumes "originalImg < length (heap w)"
  shows "let bg = heap w ! originalImg;
             run = certificate L F srcColor fontType originalImg imgWidth imgHeight [] w;
             out = heap (snd run) ! length (heap w);
             filename = filepath_Join L (outputPath F) (sanitizeFilename [] @ ''.png'')
         in fst (draw_certificate L F srcColor fontType originalImg imgWidth imgHeight [] (heap w)) = None
            \<and> out = RGBA (RGBA_copy bg)
            \<and> (\<forall>bytes. os_Create_error L filename = None
                    \<and> png_Encode L (RGBA (RGBA_copy bg)) = Inr bytes \<longrightarrow>
                  files (snd run) filename = Some bytes)
            \<and> Dx (RGBA_copy bg) = Bounds_Dx bg \<and> Dy (RGBA_copy bg) = Bounds_Dy bg
            \<and> (\<forall>p. in_bounds (RGBA_copy bg) p \<longrightarrow> Pix (RGBA_copy bg) p = RGBA_pixel bg p)
            \<and> (\<forall>src p. bg = RGBA src \<and> in_bounds src p \<longrightarrow> Pix (RGBA_copy bg) p = Pix src p)
            \<and> (\<forall>src p r g b. bg = NRGBA src \<and> in_bounds src p \<and> Pix src p = (r, g, b, 255) \<longrightarrow>
                  Pix (RGBA_copy bg) p = (r, g, b, 255))
            \<and> (\<forall>src p r g b a. bg = NRGBA src \<and> in_bounds src p \<and> Pix src p = (r, g, b, a) \<longrightarrow>
                  Pix (RGBA_copy bg) p
                    = (premultiply_channel r a, premultiply_channel g a, premultiply_channel b a, a))"
proof -
  let ?bg = "heap w ! originalImg"
  let ?run = "certificate L F srcColor fontType originalImg imgWidth imgHeight [] w"
  let ?fn = "filepath_Join L (outputPath F) (sanitizeFilename [] @ ''.png'')"
  have none: "fst (draw_certificate L F srcColor fontType originalImg imgWidth imgHeight [] (heap w)) = None"
    using assms by (rule draw_certificate_empty)
  have out: "heap (snd ?run) ! length (heap w) = RGBA (RGBA_copy ?bg)"
    using certificate_heap [OF assms, of L F srcColor fontType imgWidth imgHeight "[]"]
    by (simp add: drawn_on_empty)
  have written: "\<forall>bytes. os_Create_error L ?fn = None
      \<and> png_Encode L (RGBA (RGBA_copy ?bg)) = Inr bytes \<longrightarrow> files (snd ?run) ?fn = Some bytes"
    using certificate_empty_file [OF assms] by blast
  have copy: "\<forall>p. in_bounds (RGBA_copy ?bg) p \<longrightarrow> Pix (RGBA_copy ?bg) p = RGBA_pixel ?bg p"
    by (simp add: RGBA_copy_def in_bounds_def)
  have same: "\<forall>src p. ?bg = RGBA src \<and> in_bounds src p \<longrightarrow> Pix (RGBA_copy ?bg) p = Pix src p"
    by (simp add: RGBA_copy_RGBA)
  have opaque: "\<forall>src p r g b. ?bg = NRGBA src \<and> in_bounds src p \<and> Pix src p = (r, g, b, 255) \<longrightarrow>
      Pix (RGBA_copy ?bg) p = (r, g, b, 255)"
    by (simp add: RGBA_copy_NRGBA premultiply_channel_opaque)
  have alpha: "\<forall>src p r g b a. ?bg = NRGBA src \<and> in_bounds src p \<and> Pix src p = (r, g, b, a) \<longrightarrow>
      Pix (RGBA_copy ?bg) p
        = (premultiply_channel r a, premultiply_channel g a, premultiply_channel b a, a)"
    by (simp add: RGBA_copy_NRGBA)
  show ?thesis
    unfolding Let_def using none out written copy same opaque alpha
    by (simp add: RGBA_copy_bounds)
qed

lemma example_filename:
  "filepath_Join example_lib (outputPath example_flags) (sanitizeFilename [] @ ''.png'') = ''out/.png''"
  by (simp add: sanitizeFilename_filter ReplaceAll_space_underscore_def example_lib_def
      example_flags_def)

text \<open>The theorem at the example image, an \<^verbatim>\<open>*image.RGBA\<close>, and the point \<open>(2, 1)\<close>; the
  file is \<^verbatim>\<open>out/.png\<close>. And at an \<^verbatim>\<open>*image.NRGBA\<close> of one opaque pixel.\<close>

theorem empty_name_copies_background_witness:
  "(let run = certificate example_lib example_flags (0, 0, 0, 255) example_font 0 4 3 []
                (example_world\<lparr>heap := [example_image]\<rparr>)
    in RGBA_pixel (heap (snd run) ! 1) (2, 1) = (1, 2, 3, 255)
       \<and> Bounds_Dx (heap (snd run) ! 1) = 4 \<and> Bounds_Dy (heap (snd run) ! 1) = 3
       \<and> files (snd run) ''out/.png'' = Some ''png'')
   \<and> (\<exists>copy. heap (snd (certificate example_lib example_flags (0, 0, 0, 255) example_font 0 1 1 []
                (example_world\<lparr>heap := [NRGBA \<lparr>Dx = 1, Dy = 1, Pix = (\<lambda>p. (9, 8, 7, 255))\<rparr>]\<rparr>))) ! 1
          = RGBA copy
        \<and> Pix copy (0, 0) = (9, 8, 7, 255))"
proof (intro conjI)
  let ?w = "example_world\<lparr>heap := [NRGBA \<lparr>Dx = 1, Dy = 1, Pix = (\<lambda>p. (9, 8, 7, 255))\<rparr>]\<rparr>"
  let ?src = "\<lparr>Dx = 1, Dy = 1, Pix = (\<lambda>p. (9, 8, 7, 255))\<rparr> :: raster"
  have len: "(0::nat) < length (heap ?w)"
    by simp
  note t = empty_name_copies_background [OF len, of example_lib example_flags "(0, 0, 0, 255)"
      example_font 1 1, unfolded Let_def]
  have bg: "heap ?w ! 0 = NRGBA ?src \<and> in_bounds ?src (0, 0) \<and> Pix ?src (0, 0) = (9, 8, 7, 255)"
    by (simp add: in_bounds_def)
  from t have "heap (snd (certificate example_lib example_flags (0, 0, 0, 255) example_font 0 1 1 [] ?w))
      ! length (heap ?w) = RGBA (RGBA_copy (heap ?w ! 0))"
    by blast
  moreover from t bg have "Pix (RGBA_copy (heap ?w ! 0)) (0, 0) = (9, 8, 7, 255)"
    by blast
  ultimately show "\<exists>copy. heap (snd (certificate example_lib example_flags (0, 0, 0, 255) example_font
      0 1 1 [] ?w)) ! 1 = RGBA copy \<and> Pix copy (0, 0) = (9, 8, 7, 255)"
    by simp
next
  let ?w = "example_world\<lparr>heap := [example_image]\<rparr>"
  let ?run = "certificate example_lib example_flags (0, 0, 0, 255) example_font 0 4 3 [] ?w"
  let ?src = "\<lparr>Dx = 4, Dy = 3, Pix = (\<lambda>p. (1, 2, 3, 255))\<rparr> :: raster"
  have len: "(0::nat) < length (heap ?w)"
    by simp
  note t = empty_name_copies_background [OF len, of example_lib example_flags "(0, 0, 0, 255)"
      example_font 4 3, unfolded Let_def]
  have bg: "heap ?w ! 0 = RGBA ?src \<and> in_bounds ?src (2, 1)"
    by (simp add: example_image_def in_bounds_def)
  have enc: "os_Create_error example_lib
        (filepath_Join example_lib (outputPath example_flags) (sanitizeFilename [] @ ''.png'')) = None
      \<and> png_Encode example_lib (RGBA (RGBA_copy (heap ?w ! 0))) = Inr ''png''"
    by (simp add: example_lib_def)
  from t have out: "heap (snd ?run) ! length (heap ?w) = RGBA (RGBA_copy (heap ?w ! 0))"
    by blast
  from t bg have pix: "Pix (RGBA_copy (heap ?w ! 0)) (2, 1) = Pix ?src (2, 1)"
    by blast
  from t have dims: "Dx (RGBA_copy (heap ?w ! 0)) = Bounds_Dx (heap ?w ! 0)"
      "Dy (RGBA_copy (heap ?w ! 0)) = Bounds_Dy (heap ?w ! 0)"
    by blast+
  from t enc have "files (snd ?run)
        (filepath_Join example_lib (outputPath example_flags) (sanitizeFilename [] @ ''.png''))
      = Some ''png''"
    by blast
  then have "files (snd ?run) ''out/.png'' = Some ''png''"
    by (simp only: example_filename)
  with out pix dims show "let run = ?run
    in RGBA_pixel (heap (snd run) ! 1) (2, 1) = (1, 2, 3, 255)
       \<and> Bounds_Dx (heap (snd run) ! 1) = 4 \<and> Bounds_Dy (heap (snd run) ! 1) = 3
       \<and> files (snd run) ''out/.png'' = Some ''png''"
    by (simp add: Let_def example_image_def)
qed

lemma premultiply_channel_example:
  "premultiply_channel 200 128 = 100"
  "premultiply_channel 100 128 = 50"
  "premultiply_channel 50 128 = 25"
  by (simp_all add: premultiply_channel_def)

text \<open>
  The claim as stated, for every background image, fails for a background that the
  decoder returns as an \<^verbatim>\<open>*image.NRGBA\<close>, a PNG with an alpha channel, at a pixel that is
  not opaque. For the background of one pixel \<open>(200, 100, 50, 128)\<close>
  and the empty name, the image produced holds \<open>(100, 50, 25, 128)\<close>, which the PNG
  encoder writes as \<open>(199, 99, 49, 128)\<close>: neither is the pixel of the background.
\<close>

theorem empty_name_alpha_counterexample:
  "\<exists>copy. heap (snd (certificate example_lib example_flags (0, 0, 0, 255) example_font 0 1 1 []
               (example_world\<lparr>heap := [NRGBA example_alpha_pixels]\<rparr>))) ! 1 = RGBA copy
      \<and> Dx copy = 1 \<and> Dy copy = 1
      \<and> Pix example_alpha_pixels (0, 0) = (200, 100, 50, 128)
      \<and> Pix copy (0, 0) = (100, 50, 25, 128)
      \<and> NRGBAModel_RGBA (Pix copy (0, 0)) = (199, 99, 49, 128)"
proof -
  let ?w = "example_world\<lparr>heap := [NRGBA example_alpha_pixels]\<rparr>"
  have len: "(0::nat) < length (heap ?w)"
    by simp
  have "heap (snd (certificate example_lib example_flags (0, 0, 0, 255) example_font 0 1 1 [] ?w)) ! 1
      = RGBA (RGBA_copy (NRGBA example_alpha_pixels))"
    using certificate_heap [OF len, of example_lib example_flags "(0, 0, 0, 255)" example_font 1 1 "[]"]
    by (simp add: drawn_on_empty)
  moreover have "Pix (RGBA_copy (NRGBA example_alpha_pixels)) (0, 0) = (100, 50, 25, 128)"
    by (simp add: RGBA_copy_def example_alpha_pixels_def premultiply_channel_example)
  moreover have "NRGBAModel_RGBA (100, 50, 25, 128) = (199, 99, 49, 128)"
    by simp
  ultimately show ?thesis
    by (simp add: RGBA_copy_bounds example_alpha_pixels_def)
qed

section \<open>A color name that is not in the table\<close>

lemma main_unknown_color:
  assumes "lookupColor L (srcColorName F) = None"
  shows "main L F w = (Returned, print Usage w)
       \<or> (\<exists>e. main L F w = (Fatal e, w))
       \<or> main L F w = (Fatal (Invalid_color (ToLower (unicode_ToLower L) (srcColorName F))),
                         print (Println_color (0, 0, 0, 0)) w)"
  using assms by (simp add: main_def lookupColor_def Let_def)

text \<open>
  Claim C9, amended. When the color name does not resolve, the run ends before it reads
  a name, the image or the font, before it draws and before it writes: files,
  directories and images in memory are as before. It is not without any other effect:
  when the flags and paths pass their checks, the zero color is printed on standard
  output (line 65 comes before the check of line 66), and then the run is fatal with
  the diagnostic of line 67.
\<close>

theorem unknown_color_stops_run:
  assumes "lookupColor L (srcColorName F) = None"
  shows "files (snd (main L F w)) = files w
       \<and> dirs (snd (main L F w)) = dirs w
       \<and> heap (snd (main L F w)) = heap w
       \<and> (stdout (snd (main L F w)) = stdout w
            \<or> stdout (snd (main L F w)) = stdout w @ [Usage]
            \<or> stdout (snd (main L F w)) = stdout w @ [Println_color (0, 0, 0, 0)])
       \<and> (csvFilePath F \<noteq> [] \<and> imagePath F \<noteq> [] \<and> fontPath F \<noteq> []
            \<and> os_Stat_exists w (csvFilePath F) \<and> os_Stat_exists w (imagePath F)
            \<and> os_Stat_exists w (fontPath F) \<and> os_Stat_exists w (outputPath F) \<longrightarrow>
            main L F w = (Fatal (Invalid_color (ToLower (unicode_ToLower L) (srcColorName F))),
                          print (Println_color (0, 0, 0, 0)) w))"
proof (intro conjI)
  note cases = main_unknown_color [OF assms, of w]
  show "files (snd (main L F w)) = files w"
    using cases by (auto simp add: print_def)
  show "dirs (snd (main L F w)) = dirs w"
    using cases by (auto simp add: print_def)
  show "heap (snd (main L F w)) = heap w"
    using cases by (auto simp add: print_def)
  show "stdout (snd (main L F w)) = stdout w
      \<or> stdout (snd (main L F w)) = stdout w @ [Usage]
      \<or> stdout (snd (main L F w)) = stdout w @ [Println_color (0, 0, 0, 0)]"
    using cases by (auto simp add: print_def)
  show "csvFilePath F \<noteq> [] \<and> imagePath F \<noteq> [] \<and> fontPath F \<noteq> []
      \<and> os_Stat_exists w (csvFilePath F) \<and> os_Stat_exists w (imagePath F)
      \<and> os_Stat_exists w (fontPath F) \<and> os_Stat_exists w (outputPath F) \<longrightarrow>
      main L F w = (Fatal (Invalid_color (ToLower (unicode_ToLower L) (srcColorName F))),
                    print (Println_color (0, 0, 0, 0)) w)"
    using assms by (simp add: main_def lookupColor_def Let_def)
qed

lemma lookupColor_nope: "lookupColor example_lib ''Nope'' = None"
  by (simp add: lookupColor_def example_lib_def ToLower_def ascii_lower_def ascii_upper_def byte_def
      char_of_def)

lemma ToLower_nope: "ToLower (unicode_ToLower example_lib) ''Nope'' = ''nope''"
  by (simp add: ToLower_def ascii_lower_def ascii_upper_def byte_def char_of_def)

text \<open>The theorem at the example with the color \<^verbatim>\<open>Nope\<close>.\<close>

theorem unknown_color_stops_run_witness:
  "main example_lib (example_flags\<lparr>srcColorName := ''Nope''\<rparr>) example_world
     = (Fatal (Invalid_color ''nope''), print (Println_color (0, 0, 0, 0)) example_world)
   \<and> files (snd (main example_lib (example_flags\<lparr>srcColorName := ''Nope''\<rparr>) example_world))
     = files example_world"
proof -
  let ?F = "example_flags\<lparr>srcColorName := ''Nope''\<rparr>"
  have none: "lookupColor example_lib (srcColorName ?F) = None"
    by (simp add: lookupColor_nope)
  have pre: "csvFilePath ?F \<noteq> [] \<and> imagePath ?F \<noteq> [] \<and> fontPath ?F \<noteq> []
      \<and> os_Stat_exists example_world (csvFilePath ?F) \<and> os_Stat_exists example_world (imagePath ?F)
      \<and> os_Stat_exists example_world (fontPath ?F) \<and> os_Stat_exists example_world (outputPath ?F)"
    by (simp add: example_flags_def example_world_def os_Stat_exists_def)
  from unknown_color_stops_run [OF none, of example_world] pre
  have "main example_lib ?F example_world
      = (Fatal (Invalid_color (ToLower (unicode_ToLower example_lib) (srcColorName ?F))),
         print (Println_color (0, 0, 0, 0)) example_world)"
    and "files (snd (main example_lib ?F example_world)) = files example_world"
    by blast+
  then show ?thesis
    by (simp add: ToLower_nope)
qed

text \<open>The claim as stated, that nothing else happens, fails there: a line is printed on
  standard output.\<close>

theorem unknown_color_prints_counterexample:
  "lookupColor example_lib ''Nope'' = None
   \<and> stdout (snd (main example_lib (example_flags\<lparr>srcColorName := ''Nope''\<rparr>) example_world))
       \<noteq> stdout example_world"
proof -
  have "colornames_Map example_lib ''nope'' = None"
    by (simp add: example_lib_def)
  then have "main example_lib (example_flags\<lparr>srcColorName := ''Nope''\<rparr>) example_world
     = (Fatal (Invalid_color ''nope''), print (Println_color (0, 0, 0, 0)) example_world)"
    by (simp add: main_def ToLower_nope Let_def)
       (simp add: example_flags_def example_world_def os_Stat_exists_def)
  then show ?thesis
    by (simp add: lookupColor_nope print_def)
qed

end
